theory Spec2Isabelle
  imports Complex_Main
begin

section \<open>Storage model\<close>

text \<open>
  The matrices of package \<open>mat\<close> are headers over shared backing arrays, and the
  arithmetic methods of \<open>CDense\<close> write through a pointer receiver that may be one of
  their own operands.  The embedding therefore keeps an explicit store:

  \<^item> \<open>mem\<close> is the memory of \<open>complex128\<close> cells, one flat address space, so that the
    distance between two slices is plain arithmetic on their start addresses;
  \<^item> \<open>denses\<close> and \<open>diags\<close> hold the \<open>CDense\<close> and \<open>DiagCDense\<close> objects; a pointer
    \<open>*CDense\<close> is an index into \<open>denses\<close>, and pointer equality is equality of indices.

  A \<open>complex128\<close> is modelled by an exact complex number.  Go's \<open>int\<close> values that
  count rows, columns, strides and offsets are natural numbers; the argument of
  \<open>NewDiagCDense\<close>, which may be negative, is an integer.

  A panic is a value \<open>Inl (e, s)\<close>: the error together with the store at the moment
  of the panic.
\<close>

type_synonym complex128 = complex

datatype error =
    ErrShape
  | ErrZeroLength
  | NegativeDimension
  | ErrRowAccess
  | ErrColAccess
  | IndexOutOfRange
  | SliceBounds
  | RegionOverlap
  | BadLength

record slice =
  ptr :: nat
  len :: nat
  cap :: nat

record Band =
  Rows :: nat
  Cols :: nat
  KL :: nat
  KU :: nat
  Stride :: nat
  Data :: slice

record Vector =
  N :: nat
  Data :: slice
  Inc :: nat

record General =
  Rows :: nat
  Cols :: nat
  Stride :: nat
  Data :: slice

record DiagCDense =
  mat :: Vector

record CDense =
  mat :: General
  capRows :: nat
  capCols :: nat

record store =
  mem :: "complex128 list"
  denses :: "CDense list"
  diags :: "DiagCDense list"

type_synonym 'a res = "(error \<times> store) + 'a"

definition bindE :: "'e + 'a \<Rightarrow> ('a \<Rightarrow> 'e + 'b) \<Rightarrow> 'e + 'b" where
  "bindE x f = (case x of Inl e \<Rightarrow> Inl e | Inr v \<Rightarrow> f v)"

text \<open>A counted \<open>for\<close> loop whose body neither changes the counter nor the bound.\<close>

primrec foldE :: "('a \<Rightarrow> 's \<Rightarrow> 'e + 's) \<Rightarrow> 'a list \<Rightarrow> 's \<Rightarrow> 'e + 's" where
  "foldE f [] s = Inr s"
| "foldE f (x # xs) s = bindE (f x s) (foldE f xs)"

text \<open>The nil slice, and \<open>make([]complex128, n)\<close>: \<open>n\<close> fresh zero cells at the end of memory.\<close>

definition nil_slice :: slice where
  "nil_slice = \<lparr>ptr = 0, len = 0, cap = 0\<rparr>"

definition make :: "store \<Rightarrow> nat \<Rightarrow> slice \<times> store" where
  "make s n = (\<lparr>ptr = length (mem s), len = n, cap = n\<rparr>, s\<lparr>mem := mem s @ replicate n 0\<rparr>)"

text \<open>\<open>d[k]\<close> as a value and as an assignment target: both panic when \<open>k\<close> is not below \<open>len(d)\<close>.\<close>

definition load :: "store \<Rightarrow> slice \<Rightarrow> nat \<Rightarrow> complex128 res" where
  "load s d k = (if k < len d then Inr (mem s ! (ptr d + k)) else Inl (IndexOutOfRange, s))"

definition assign :: "store \<Rightarrow> slice \<Rightarrow> nat \<Rightarrow> complex128 \<Rightarrow> store res" where
  "assign s d k v =
     (if k < len d then Inr (s\<lparr>mem := (mem s)[ptr d + k := v]\<rparr>) else Inl (IndexOutOfRange, s))"

text \<open>\<open>d[lo:hi]\<close>: panics unless \<open>lo \<le> hi \<le> cap(d)\<close>.\<close>

definition reslice :: "store \<Rightarrow> slice \<Rightarrow> nat \<Rightarrow> nat \<Rightarrow> slice res" where
  "reslice s d lo hi =
     (if lo \<le> hi \<and> hi \<le> cap d then Inr \<lparr>ptr = ptr d + lo, len = hi - lo, cap = cap d - lo\<rparr>
      else Inl (SliceBounds, s))"

text \<open>The address of entry \<open>(i, j)\<close> of a row-major matrix header, a store with one
  cell overwritten, and a store in which the \<open>r \<times> c\<close> entries of a matrix header have been
  given the values \<open>val i j\<close>, row by row.\<close>

definition cell :: "General \<Rightarrow> nat \<Rightarrow> nat \<Rightarrow> nat" where
  "cell g i j = ptr (Data g) + i * Stride g + j"

definition poke :: "nat \<Rightarrow> complex128 \<Rightarrow> store \<Rightarrow> store" where
  "poke k v s = s\<lparr>mem := (mem s)[k := v]\<rparr>"

definition fill :: "General \<Rightarrow> nat \<Rightarrow> nat \<Rightarrow> (nat \<Rightarrow> nat \<Rightarrow> complex128) \<Rightarrow> store \<Rightarrow> store" where
  "fill g r c val s =
     fold (\<lambda>(i, j). poke (cell g i j) (val i j)) (List.product [0..<r] [0..<c]) s"

section \<open>The matrix abstraction\<close>

text \<open>
  A value of interface type \<open>CMatrix\<close>: a pointer to a \<open>CDense\<close>, a pointer to a
  \<open>DiagCDense\<close>, a transposed or conjugate-transposed view of another \<open>CMatrix\<close>, or an
  implementation from outside the package, of which only its dimensions and its entries
  are known.
\<close>

datatype CMatrix =
    Dense nat
  | Diag nat
  | CTranspose CMatrix
  | ConjTranspose CMatrix
  | Foreign nat nat "nat \<Rightarrow> nat \<Rightarrow> complex128"

text \<open>\<open>DiagCDense.Diag\<close>, \<open>DiagCDense.Dims\<close>, \<open>DiagCDense.T\<close>, \<open>DiagCDense.H\<close>,
  \<open>DiagCDense.Bandwidth\<close>, \<open>DiagCDense.DiagView\<close>, \<open>DiagCDense.IsEmpty\<close>, \<open>DiagCDense.Norm\<close>
  (cdiagonal.go).\<close>

definition DiagCDense_Diag :: "store \<Rightarrow> nat \<Rightarrow> nat" where
  "DiagCDense_Diag s d = N (DiagCDense.mat (diags s ! d))"

definition DiagCDense_Dims :: "store \<Rightarrow> nat \<Rightarrow> nat \<times> nat" where
  "DiagCDense_Dims s d = (N (DiagCDense.mat (diags s ! d)), N (DiagCDense.mat (diags s ! d)))"

definition DiagCDense_T :: "nat \<Rightarrow> CMatrix" where
  "DiagCDense_T d = Diag d"

definition DiagCDense_H :: "nat \<Rightarrow> CMatrix" where
  "DiagCDense_H d = ConjTranspose (Diag d)"

definition DiagCDense_Bandwidth :: "store \<Rightarrow> nat \<Rightarrow> nat \<times> nat" where
  "DiagCDense_Bandwidth s d = (0, 0)"

definition DiagCDense_DiagView :: "nat \<Rightarrow> CMatrix" where
  "DiagCDense_DiagView d = Diag d"

definition DiagCDense_IsEmpty :: "store \<Rightarrow> nat \<Rightarrow> bool" where
  "DiagCDense_IsEmpty s d = (Inc (DiagCDense.mat (diags s ! d)) = 0)"

definition DiagCDense_Norm :: "store \<Rightarrow> nat \<Rightarrow> complex128 \<Rightarrow> complex128" where
  "DiagCDense_Norm s d nrm = 0"

text \<open>Modelled from the spec: \<open>CDense.Dims\<close>, \<open>CDense.IsEmpty\<close>, \<open>CDense.T\<close> and the
  \<open>Dims\<close> of the views are missing from the sources.  Section 3 of the spec: a view
  swaps rows and columns; section 9: the empty state is discriminated by a stride of
  zero, as \<open>DiagCDense.IsEmpty\<close> does with the increment.\<close>

definition CDense_Dims :: "store \<Rightarrow> nat \<Rightarrow> nat \<times> nat" where
  "CDense_Dims s m = (Rows (CDense.mat (denses s ! m)), Cols (CDense.mat (denses s ! m)))"

definition CDense_IsEmpty :: "store \<Rightarrow> nat \<Rightarrow> bool" where
  "CDense_IsEmpty s m = (Stride (CDense.mat (denses s ! m)) = 0)"

definition CDense_T :: "nat \<Rightarrow> CMatrix" where
  "CDense_T m = CTranspose (Dense m)"

fun Dims :: "store \<Rightarrow> CMatrix \<Rightarrow> nat \<times> nat" where
  "Dims s (Dense m) = CDense_Dims s m"
| "Dims s (Diag d) = DiagCDense_Dims s d"
| "Dims s (CTranspose u) = (snd (Dims s u), fst (Dims s u))"
| "Dims s (ConjTranspose u) = (snd (Dims s u), fst (Dims s u))"
| "Dims s (Foreign r c f) = (r, c)"

text \<open>Modelled from the spec: the accessors \<open>At\<close>, \<open>set\<close> and \<open>setDiag\<close> are missing from
  the sources.  Section 3: a dense matrix is row-major with a stride; the off-diagonal
  entries of a diagonal matrix are implicitly zero; a view reads \<open>underlying.at(c, r)\<close>,
  conjugated for the conjugate-transpose variant.  An index outside the dimensions is
  the accessor panic that section 1 mentions.\<close>

definition CDense_At :: "store \<Rightarrow> nat \<Rightarrow> nat \<Rightarrow> nat \<Rightarrow> complex128 res" where
  "CDense_At s m i j =
     (let g = CDense.mat (denses s ! m) in
      if Rows g \<le> i then Inl (ErrRowAccess, s)
      else if Cols g \<le> j then Inl (ErrColAccess, s)
      else load s (Data g) (i * Stride g + j))"

definition DiagCDense_At :: "store \<Rightarrow> nat \<Rightarrow> nat \<Rightarrow> nat \<Rightarrow> complex128 res" where
  "DiagCDense_At s d i j =
     (let v = DiagCDense.mat (diags s ! d) in
      if N v \<le> i then Inl (ErrRowAccess, s)
      else if N v \<le> j then Inl (ErrColAccess, s)
      else if i \<noteq> j then Inr 0
      else load s (Vector.Data v) (i * Inc v))"

fun At :: "store \<Rightarrow> CMatrix \<Rightarrow> nat \<Rightarrow> nat \<Rightarrow> complex128 res" where
  "At s (Dense m) i j = CDense_At s m i j"
| "At s (Diag d) i j = DiagCDense_At s d i j"
| "At s (CTranspose u) i j = At s u j i"
| "At s (ConjTranspose u) i j = bindE (At s u j i) (\<lambda>v. Inr (cnj v))"
| "At s (Foreign r c f) i j =
     (if r \<le> i then Inl (ErrRowAccess, s)
      else if c \<le> j then Inl (ErrColAccess, s) else Inr (f i j))"

definition CDense_set :: "store \<Rightarrow> nat \<Rightarrow> nat \<Rightarrow> nat \<Rightarrow> complex128 \<Rightarrow> store res" where
  "CDense_set s m i j v =
     (let g = CDense.mat (denses s ! m) in assign s (Data g) (i * Stride g + j) v)"

definition DiagCDense_setDiag :: "store \<Rightarrow> nat \<Rightarrow> nat \<Rightarrow> complex128 \<Rightarrow> store res" where
  "DiagCDense_setDiag s d i v =
     (let x = DiagCDense.mat (diags s ! d) in assign s (Vector.Data x) (i * Inc x) v)"

text \<open>The comparison \<open>m == aU\<close> of the receiver, a \<open>*CDense\<close>, with a value of
  interface type: true when the value is that very pointer.\<close>

fun is_receiver :: "nat \<Rightarrow> CMatrix \<Rightarrow> bool" where
  "is_receiver m (Dense p) = (p = m)"
| "is_receiver m a = False"

text \<open>Modelled from the spec: \<open>untransposeExtractCmplx\<close> is missing from the sources.
  It strips one view and reports whether it was a transposition and whether it was
  conjugated (section 9: a tagged variant Direct, Transposed, ConjugateTransposed).\<close>

fun untransposeExtractCmplx :: "CMatrix \<Rightarrow> CMatrix \<times> bool \<times> bool" where
  "untransposeExtractCmplx (CTranspose u) = (u, True, False)"
| "untransposeExtractCmplx (ConjTranspose u) = (u, True, True)"
| "untransposeExtractCmplx a = (a, False, False)"

section \<open>Resizing, overlap and workspaces\<close>

text \<open>Modelled from the spec: \<open>useC\<close> is missing from the sources.  Its call
  \<open>useC(d.mat.Data, r)\<close> in \<open>DiagCDense.reuseAsNonZeroed\<close> passes the old buffer: it is
  kept when its capacity suffices, and otherwise a zero-filled buffer is allocated.\<close>

definition useC :: "store \<Rightarrow> slice \<Rightarrow> nat \<Rightarrow> slice \<times> store" where
  "useC s c l = (if l \<le> cap c then (c\<lparr>len := l\<rparr>, s) else make s l)"

text \<open>\<open>DiagCDense.reuseAsNonZeroed\<close> (cdiagonal.go).\<close>

definition DiagCDense_reuseAsNonZeroed :: "store \<Rightarrow> nat \<Rightarrow> nat \<Rightarrow> store res" where
  "DiagCDense_reuseAsNonZeroed s d r =
     (if r = 0 then Inl (ErrZeroLength, s)
      else if DiagCDense_IsEmpty s d then
        (let (data, s1) = useC s (Vector.Data (DiagCDense.mat (diags s ! d))) r
         in Inr (s1\<lparr>diags := (diags s1)[d := \<lparr>DiagCDense.mat = \<lparr>N = r, Data = data, Inc = 1\<rparr>\<rparr>]\<rparr>))
      else if r \<noteq> N (DiagCDense.mat (diags s ! d)) then Inl (ErrShape, s)
      else Inr s)"

text \<open>Modelled from the spec: \<open>CDense.reuseAsNonZeroed\<close> is missing from the sources.
  Section 4.2: the destination is resized to the result's dimensions if it is empty;
  section 3: only an empty matrix is dimensionally unrestricted; section 8: after a
  successful call the destination has the operands' dimensions.  The checks and their
  order are those of its sibling \<open>DiagCDense.reuseAsNonZeroed\<close>.\<close>

definition CDense_reuseAsNonZeroed :: "store \<Rightarrow> nat \<Rightarrow> nat \<Rightarrow> nat \<Rightarrow> store res" where
  "CDense_reuseAsNonZeroed s m r c =
     (if r = 0 \<or> c = 0 then Inl (ErrZeroLength, s)
      else if CDense_IsEmpty s m then
        (let (data, s1) = useC s (Data (CDense.mat (denses s ! m))) (r * c)
         in Inr (s1\<lparr>denses := (denses s1)[m :=
              \<lparr>CDense.mat = \<lparr>Rows = r, Cols = c, Stride = c, Data = data\<rparr>,
               capRows = r, capCols = c\<rparr>]\<rparr>))
      else if r \<noteq> Rows (CDense.mat (denses s ! m)) \<or> c \<noteq> Cols (CDense.mat (denses s ! m))
        then Inl (ErrShape, s)
      else Inr s)"

text \<open>Modelled from the spec: \<open>CDense.checkOverlap\<close> and \<open>CDense.checkOverlapMatrix\<close> are
  missing from the sources.  Section 4.1: two matrices overlap if their backing storage
  ranges intersect; section 9: a range comparison by start and length.  \<open>Add\<close>, \<open>Sub\<close>
  and \<open>Mul\<close> call \<open>checkOverlap\<close> and drop its result, so an overlap is reported by a
  panic; without one the result is \<open>false\<close>.  \<open>checkOverlapMatrix\<close> accepts the receiver
  itself and compares storage with an operand that is a plain dense matrix.\<close>

definition slices_overlap :: "slice \<Rightarrow> slice \<Rightarrow> bool" where
  "slices_overlap d e \<longleftrightarrow>
     0 < len d \<and> 0 < len e \<and> ptr d < ptr e + len e \<and> ptr e < ptr d + len d"

definition CDense_checkOverlap :: "store \<Rightarrow> nat \<Rightarrow> General \<Rightarrow> bool res" where
  "CDense_checkOverlap s m a =
     (if slices_overlap (Data (CDense.mat (denses s ! m))) (Data a)
      then Inl (RegionOverlap, s) else Inr False)"

definition CDense_checkOverlapMatrix :: "store \<Rightarrow> nat \<Rightarrow> CMatrix \<Rightarrow> bool res" where
  "CDense_checkOverlapMatrix s m a =
     (case a of
        Dense p \<Rightarrow> if p = m then Inr False else CDense_checkOverlap s m (CDense.mat (denses s ! p))
      | _ \<Rightarrow> Inr False)"

text \<open>Modelled from the spec: \<open>CDense.Copy\<close> is missing from the sources.  Section 4.1:
  the contents are copied element by element into the destination.\<close>

definition CDense_Copy :: "store \<Rightarrow> nat \<Rightarrow> CMatrix \<Rightarrow> store res" where
  "CDense_Copy s m a =
     foldE (\<lambda>i. foldE (\<lambda>j s. bindE (At s a i j) (\<lambda>v. CDense_set s m i j v))
                      [0..<snd (Dims s a)])
           [0..<fst (Dims s a)] s"

text \<open>Modelled from the spec: \<open>CDense.isolatedWorkspace\<close> is missing from the sources.
  Section 3: a workspace is a temporary dense matrix, allocated for the call; section
  4.1: the computation writes into the workspace, and the workspace is then copied
  element by element into the real destination.  The workspace gets the dimensions of
  the matrix passed to \<open>isolatedWorkspace\<close>, which at every call is the destination's
  final shape.  \<open>restore\<close> is the function that \<open>isolatedWorkspace\<close> returns, and
  \<open>deferred\<close> is Go's \<open>defer\<close>: the function runs when the body has returned or
  panicked, and a panic of the body goes on afterwards.\<close>

definition CDense_isolatedWorkspace :: "store \<Rightarrow> nat \<Rightarrow> CMatrix \<Rightarrow> nat \<times> store" where
  "CDense_isolatedWorkspace s m a =
     (let (r, c) = Dims s a;
          (data, s1) = make s (r * c)
      in (length (denses s1),
          s1\<lparr>denses := denses s1 @
              [\<lparr>CDense.mat = \<lparr>Rows = r, Cols = c, Stride = c, Data = data\<rparr>,
                capRows = r, capCols = c\<rparr>]\<rparr>))"

definition restore :: "nat \<Rightarrow> nat \<Rightarrow> store \<Rightarrow> store res" where
  "restore m w s = CDense_Copy s m (Dense w)"

definition deferred :: "(store \<Rightarrow> store res) \<Rightarrow> store res \<Rightarrow> store res" where
  "deferred rst r =
     (case r of
        Inr s \<Rightarrow> rst s
      | Inl (e, s) \<Rightarrow> (case rst s of Inr s' \<Rightarrow> Inl (e, s') | Inl p \<Rightarrow> Inl p))"

section \<open>The kernel layer\<close>

datatype Transpose = NoTrans | Trans | ConjTrans

text \<open>Modelled from the spec: \<open>cblas128.Copy\<close> is missing from the sources.  Section 6:
  a strided copy of the source vector into the destination vector.  The two vectors
  must have the same length.\<close>

definition cblas128_Copy :: "store \<Rightarrow> Vector \<Rightarrow> Vector \<Rightarrow> store res" where
  "cblas128_Copy s x y =
     (if N x \<noteq> N y then Inl (BadLength, s)
      else foldE (\<lambda>i s. bindE (load s (Vector.Data x) (i * Inc x))
                          (\<lambda>v. assign s (Vector.Data y) (i * Inc y) v))
                 [0..<N x] s)"

text \<open>Modelled from the spec: \<open>cblas128.Gemm\<close> is missing from the sources.  Section 6:
  the standard complex matrix product \<open>C := alpha * op(A) * op(B) + beta * C\<close>, where
  \<open>op\<close> is the identity, the transpose or the conjugate transpose, as the flag says.
  The kernel refuses operands whose storage is too short for their dimensions.\<close>

definition fits :: "General \<Rightarrow> nat \<Rightarrow> nat \<Rightarrow> bool" where
  "fits g r c \<longleftrightarrow>
     r = 0 \<or> c = 0 \<or> (c \<le> Stride g \<and> (r - 1) * Stride g + c \<le> len (Data g))"

definition op_at :: "store \<Rightarrow> Transpose \<Rightarrow> General \<Rightarrow> nat \<Rightarrow> nat \<Rightarrow> complex128" where
  "op_at s t g i j =
     (case t of
        NoTrans \<Rightarrow> mem s ! cell g i j
      | Trans \<Rightarrow> mem s ! cell g j i
      | ConjTrans \<Rightarrow> cnj (mem s ! cell g j i))"

definition cblas128_Gemm ::
  "store \<Rightarrow> Transpose \<Rightarrow> Transpose \<Rightarrow> complex128 \<Rightarrow> General \<Rightarrow> General \<Rightarrow> complex128 \<Rightarrow> General
     \<Rightarrow> store res" where
  "cblas128_Gemm s tA tB alpha a b beta c =
     (let (m, k) = (if tA = NoTrans then (Rows a, Cols a) else (Cols a, Rows a));
          (k', n) = (if tB = NoTrans then (Rows b, Cols b) else (Cols b, Rows b))
      in if k \<noteq> k' \<or> \<not> fits a (Rows a) (Cols a) \<or> \<not> fits b (Rows b) (Cols b) \<or> \<not> fits c m n
         then Inl (BadLength, s)
         else Inr (fill c m n
                (\<lambda>i j. alpha * (\<Sum>l\<leftarrow>[0..<k]. op_at s tA a i l * op_at s tB b l j)
                         + beta * (mem s ! cell c i j)) s))"

section \<open>Arithmetic of \<open>CDense\<close>\<close>

text \<open>The loops of \<open>Add\<close> and \<open>Sub\<close> differ in the operator only, which is the
  parameter \<open>f\<close> here.  \<open>elem_row\<close> is the body of the inner \<open>range\<close> loop of the fast
  path, \<open>elem_rows\<close> the outer loop over the row offsets \<open>ja\<close>, \<open>jb\<close>, \<open>jm\<close>, and
  \<open>elem_generic\<close> the loop over \<open>At\<close> and \<open>set\<close>.\<close>

definition elem_row ::
  "(complex128 \<Rightarrow> complex128 \<Rightarrow> complex128) \<Rightarrow> nat \<Rightarrow> slice \<Rightarrow> General \<Rightarrow> nat \<Rightarrow> nat \<Rightarrow> nat
     \<Rightarrow> store \<Rightarrow> store res" where
  "elem_row f m row bmat jb jm i s =
     bindE (load s row i) (\<lambda>v.
     bindE (load s (Data bmat) (i + jb)) (\<lambda>w.
       assign s (Data (CDense.mat (denses s ! m))) (i + jm) (f v w)))"

function elem_rows ::
  "(complex128 \<Rightarrow> complex128 \<Rightarrow> complex128) \<Rightarrow> store \<Rightarrow> nat \<Rightarrow> General \<Rightarrow> General \<Rightarrow> nat \<Rightarrow> nat
     \<Rightarrow> nat \<Rightarrow> nat \<Rightarrow> nat \<Rightarrow> store res" where
  "elem_rows f s m amat bmat ar ac ja jb jm =
     (if ja < ar * Stride amat then
        bindE (reslice s (Data amat) ja (ja + ac)) (\<lambda>row.
        bindE (foldE (elem_row f m row bmat jb jm) [0..<len row] s) (\<lambda>s'.
          elem_rows f s' m amat bmat ar ac
            (ja + Stride amat) (jb + Stride bmat) (jm + Stride (CDense.mat (denses s' ! m)))))
      else Inr s)"
  by pat_completeness auto
termination
  apply (relation "measure (\<lambda>(f, s, m, amat, bmat, ar, ac, ja, jb, jm). ar * Stride amat - ja)")
   apply simp
  subgoal for f s m amat bmat ar ac ja jb jm row s'
    by (cases "Stride amat = 0") auto
  done

definition elem_generic ::
  "(complex128 \<Rightarrow> complex128 \<Rightarrow> complex128) \<Rightarrow> store \<Rightarrow> nat \<Rightarrow> CMatrix \<Rightarrow> CMatrix \<Rightarrow> nat \<Rightarrow> nat
     \<Rightarrow> store res" where
  "elem_generic f s m a b ar ac =
     foldE (\<lambda>r. foldE (\<lambda>c s. bindE (At s a r c) (\<lambda>x. bindE (At s b r c) (\<lambda>y.
                                 CDense_set s m r c (f x y))))
                      [0..<ac])
           [0..<ar] s"

definition elem_op ::
  "(complex128 \<Rightarrow> complex128 \<Rightarrow> complex128) \<Rightarrow> store \<Rightarrow> nat \<Rightarrow> CMatrix \<Rightarrow> CMatrix \<Rightarrow> store res" where
  "elem_op f s m a b =
     (let (ar, ac) = Dims s a; (br, bc) = Dims s b in
      if ar \<noteq> br \<or> ac \<noteq> bc then Inl (ErrShape, s)
      else
        let (aU, aTrans, aConj) = untransposeExtractCmplx a;
            (bU, bTrans, bConj) = untransposeExtractCmplx b
        in bindE (CDense_reuseAsNonZeroed s m ar ac) (\<lambda>s1.
           case (a, b) of
             (Dense arm, Dense brm) \<Rightarrow>
               (let amat = CDense.mat (denses s1 ! arm); bmat = CDense.mat (denses s1 ! brm) in
                bindE (if \<not> is_receiver m aU then CDense_checkOverlap s1 m amat else Inr False) (\<lambda>_.
                bindE (if \<not> is_receiver m bU then CDense_checkOverlap s1 m bmat else Inr False) (\<lambda>_.
                  elem_rows f s1 m amat bmat ar ac 0 0 0)))
           | _ \<Rightarrow>
               bindE (CDense_checkOverlapMatrix s1 m aU) (\<lambda>_.
               bindE (CDense_checkOverlapMatrix s1 m bU) (\<lambda>_.
                 if aTrans \<and> is_receiver m aU then
                   (let (w, s2) = CDense_isolatedWorkspace s1 m aU
                    in deferred (restore m w) (elem_generic f s2 w a b ar ac))
                 else if bTrans \<and> is_receiver m bU then
                   (let (w, s2) = CDense_isolatedWorkspace s1 m bU
                    in deferred (restore m w) (elem_generic f s2 w a b ar ac))
                 else elem_generic f s1 m a b ar ac))))"

text \<open>\<open>CDense.Add\<close> and \<open>CDense.Sub\<close>.\<close>

definition CDense_Add :: "store \<Rightarrow> nat \<Rightarrow> CMatrix \<Rightarrow> CMatrix \<Rightarrow> store res" where
  "CDense_Add s m a b = elem_op (\<lambda>x y. x + y) s m a b"

definition CDense_Sub :: "store \<Rightarrow> nat \<Rightarrow> CMatrix \<Rightarrow> CMatrix \<Rightarrow> store res" where
  "CDense_Sub s m a b = elem_op (\<lambda>x y. x - y) s m a b"

text \<open>\<open>CDense.Mul\<close>.  \<open>rst\<close> is the variable \<open>restore\<close> of the source: \<open>None\<close> is its
  \<open>nil\<close>.\<close>

definition CDense_Mul :: "store \<Rightarrow> nat \<Rightarrow> CMatrix \<Rightarrow> CMatrix \<Rightarrow> store res" where
  "CDense_Mul s m a b =
     (let (ar, ac) = Dims s a; (br, bc) = Dims s b in
      if ac \<noteq> br then Inl (ErrShape, s)
      else
        let (aU, aTrans, aConj) = untransposeExtractCmplx a;
            (bU, bTrans, bConj) = untransposeExtractCmplx b
        in bindE (CDense_reuseAsNonZeroed s m ar bc) (\<lambda>s1.
           let (m', s2, rst) =
                 (if is_receiver m aU then
                    (let (w, s') = CDense_isolatedWorkspace s1 m aU in (w, s', Some w))
                  else if is_receiver m bU then
                    (let (w, s') = CDense_isolatedWorkspace s1 m bU in (w, s', Some w))
                  else (m, s1, None));
               aT = (if aTrans then Trans else NoTrans);
               bT = (if bTrans then Trans else NoTrans);
               body =
                 (case aU of
                    Dense au \<Rightarrow>
                      bindE (if rst = None
                             then CDense_checkOverlap s2 m' (CDense.mat (denses s2 ! au))
                             else Inr False) (\<lambda>_.
                        case bU of
                          Dense bu \<Rightarrow>
                            bindE (if rst = None
                                   then CDense_checkOverlap s2 m' (CDense.mat (denses s2 ! bu))
                                   else Inr False) (\<lambda>_.
                              cblas128_Gemm s2 aT bT 1 (CDense.mat (denses s2 ! au))
                                (CDense.mat (denses s2 ! bu)) 0 (CDense.mat (denses s2 ! m')))
                        | _ \<Rightarrow> Inr s2)
                  | _ \<Rightarrow> Inr s2)
           in case rst of None \<Rightarrow> body | Some w \<Rightarrow> deferred (restore m w) body))"

text \<open>\<open>CDense.Scale\<close>: the two strided loops of the fast path, for an untransposed and
  for a transposed operand.\<close>

function Scale_rows ::
  "store \<Rightarrow> nat \<Rightarrow> complex128 \<Rightarrow> General \<Rightarrow> nat \<Rightarrow> nat \<Rightarrow> nat \<Rightarrow> nat \<Rightarrow> store res" where
  "Scale_rows s m f amat ar ac ja jm =
     (if ja < ar * Stride amat then
        bindE (reslice s (Data amat) ja (ja + ac)) (\<lambda>row.
        bindE (foldE (\<lambda>i s. bindE (load s row i) (\<lambda>v.
                        assign s (Data (CDense.mat (denses s ! m))) (i + jm) (v * f)))
                     [0..<len row] s) (\<lambda>s'.
          Scale_rows s' m f amat ar ac (ja + Stride amat) (jm + Stride (CDense.mat (denses s' ! m)))))
      else Inr s)"
  by pat_completeness auto
termination
  apply (relation "measure (\<lambda>(s, m, f, amat, ar, ac, ja, jm). ar * Stride amat - ja)")
   apply simp
  subgoal for s m f amat ar ac ja jm row s'
    by (cases "Stride amat = 0") auto
  done

function Scale_rowsT ::
  "store \<Rightarrow> nat \<Rightarrow> complex128 \<Rightarrow> General \<Rightarrow> nat \<Rightarrow> nat \<Rightarrow> nat \<Rightarrow> nat \<Rightarrow> store res" where
  "Scale_rowsT s m f amat ar ac ja jm =
     (if ja < ac * Stride amat then
        bindE (reslice s (Data amat) ja (ja + ar)) (\<lambda>row.
        bindE (foldE (\<lambda>i s. bindE (load s row i) (\<lambda>v.
                        assign s (Data (CDense.mat (denses s ! m)))
                          (i * Stride (CDense.mat (denses s ! m)) + jm) (v * f)))
                     [0..<len row] s) (\<lambda>s'.
          Scale_rowsT s' m f amat ar ac (ja + Stride amat) (jm + 1)))
      else Inr s)"
  by pat_completeness auto
termination
  apply (relation "measure (\<lambda>(s, m, f, amat, ar, ac, ja, jm). ac * Stride amat - ja)")
   apply simp
  subgoal for s m f amat ar ac ja jm row s'
    by (cases "Stride amat = 0") auto
  done

definition CDense_Scale :: "store \<Rightarrow> nat \<Rightarrow> complex128 \<Rightarrow> CMatrix \<Rightarrow> store res" where
  "CDense_Scale s m f a =
     (let (ar, ac) = Dims s a in
      bindE (CDense_reuseAsNonZeroed s m ar ac) (\<lambda>s1.
        let (aU, aTrans, aConj) = untransposeExtractCmplx a in
        case aU of
          Dense rm \<Rightarrow>
            (let amat = CDense.mat (denses s1 ! rm);
                 body = (\<lambda>s m. if \<not> aTrans then Scale_rows s m f amat ar ac 0 0
                                else Scale_rowsT s m f amat ar ac 0 0)
             in bindE (if is_receiver m aU then Inr True else CDense_checkOverlap s1 m amat) (\<lambda>iso.
                  if iso then
                    (let (w, s2) = CDense_isolatedWorkspace s1 m a
                     in deferred (restore m w) (body s2 w))
                  else body s1 m))
        | _ \<Rightarrow>
            bindE (CDense_checkOverlapMatrix s1 m a) (\<lambda>_.
              foldE (\<lambda>r. foldE (\<lambda>c s. bindE (At s a r c) (\<lambda>v. CDense_set s m r c (f * v)))
                               [0..<ac])
                    [0..<ar] s1)))"

section \<open>The diagonal matrix \<open>DiagCDense\<close>\<close>

text \<open>\<open>NewDiagCDense\<close>: the slice argument is \<open>None\<close> for \<open>nil\<close>.  The result is the
  pointer to the new object.\<close>

definition NewDiagCDense :: "store \<Rightarrow> int \<Rightarrow> slice option \<Rightarrow> (nat \<times> store) res" where
  "NewDiagCDense s n data =
     (if n \<le> 0 then
        (if n = 0 then Inl (ErrZeroLength, s) else Inl (NegativeDimension, s))
      else
        let (data', s1) = (case data of None \<Rightarrow> make s (nat n) | Some d \<Rightarrow> (d, s)) in
        if int (len data') \<noteq> n then Inl (ErrShape, s1)
        else Inr (length (diags s1),
                  s1\<lparr>diags := diags s1 @
                      [\<lparr>DiagCDense.mat = \<lparr>N = nat n, Data = data', Inc = 1\<rparr>\<rparr>]\<rparr>))"

text \<open>\<open>DiagCDense.Reset\<close>, \<open>DiagCDense.Zero\<close>, \<open>DiagCDense.RawBand\<close> and
  \<open>DiagCDense.DiagFrom\<close>.\<close>

definition DiagCDense_Reset :: "store \<Rightarrow> nat \<Rightarrow> store res" where
  "DiagCDense_Reset s d =
     (let s1 = s\<lparr>diags := (diags s)[d := \<lparr>DiagCDense.mat = (DiagCDense.mat (diags s ! d))\<lparr>Inc := 0\<rparr>\<rparr>]\<rparr>;
          s2 = s1\<lparr>diags := (diags s1)[d := \<lparr>DiagCDense.mat = (DiagCDense.mat (diags s1 ! d))\<lparr>N := 0\<rparr>\<rparr>]\<rparr>
      in bindE (reslice s2 (Vector.Data (DiagCDense.mat (diags s2 ! d))) 0 0) (\<lambda>e.
           Inr (s2\<lparr>diags := (diags s2)[d :=
                  \<lparr>DiagCDense.mat = (DiagCDense.mat (diags s2 ! d))\<lparr>Vector.Data := e\<rparr>\<rparr>]\<rparr>)))"

definition DiagCDense_Zero :: "store \<Rightarrow> nat \<Rightarrow> store res" where
  "DiagCDense_Zero s d =
     foldE (\<lambda>i s. assign s (Vector.Data (DiagCDense.mat (diags s ! d)))
                    (Inc (DiagCDense.mat (diags s ! d)) * i) 0)
           [0..<N (DiagCDense.mat (diags s ! d))] s"

definition DiagCDense_RawBand :: "store \<Rightarrow> nat \<Rightarrow> Band" where
  "DiagCDense_RawBand s d =
     \<lparr>Band.Rows = N (DiagCDense.mat (diags s ! d)),
      Band.Cols = N (DiagCDense.mat (diags s ! d)),
      KL = 0, KU = 0,
      Band.Stride = Inc (DiagCDense.mat (diags s ! d)),
      Band.Data = Vector.Data (DiagCDense.mat (diags s ! d))\<rparr>"

definition DiagCDense_DiagFrom :: "store \<Rightarrow> nat \<Rightarrow> CMatrix \<Rightarrow> store res" where
  "DiagCDense_DiagFrom s d m =
     (let n = min (fst (Dims s m)) (snd (Dims s m)) in
      bindE (DiagCDense_reuseAsNonZeroed s d n) (\<lambda>s1.
        case m of
          Diag r \<Rightarrow> cblas128_Copy s1 (DiagCDense.mat (diags s1 ! r)) (DiagCDense.mat (diags s1 ! d))
        | _ \<Rightarrow> foldE (\<lambda>i s. bindE (At s m i i) (\<lambda>v. DiagCDense_setDiag s d i v)) [0..<n] s1))"

section \<open>Well-formed stores and separation\<close>

text \<open>A slice lies within the memory; a matrix header addresses cells of its slice
  only, and has a zero stride exactly when it is empty; an operand is well formed when
  the objects it points to exist and are well formed.\<close>

definition wf_slice :: "store \<Rightarrow> slice \<Rightarrow> bool" where
  "wf_slice s d \<longleftrightarrow> len d \<le> cap d \<and> ptr d + cap d \<le> length (mem s)"

definition wf_General :: "store \<Rightarrow> General \<Rightarrow> bool" where
  "wf_General s g \<longleftrightarrow>
     wf_slice s (Data g) \<and>
     (if Stride g = 0 then Rows g = 0 \<and> Cols g = 0
      else 0 < Rows g \<and> 0 < Cols g \<and> Cols g \<le> Stride g \<and>
           (Rows g - 1) * Stride g + Cols g \<le> len (Data g))"

definition wf_Vector :: "store \<Rightarrow> Vector \<Rightarrow> bool" where
  "wf_Vector s v \<longleftrightarrow>
     wf_slice s (Vector.Data v) \<and>
     (if Inc v = 0 then N v = 0 else 0 < N v \<and> (N v - 1) * Inc v < len (Vector.Data v))"

fun wf_CMatrix :: "store \<Rightarrow> CMatrix \<Rightarrow> bool" where
  "wf_CMatrix s (Dense p) = (p < length (denses s) \<and> wf_General s (CDense.mat (denses s ! p)))"
| "wf_CMatrix s (Diag p) = (p < length (diags s) \<and> wf_Vector s (DiagCDense.mat (diags s ! p)))"
| "wf_CMatrix s (CTranspose u) = wf_CMatrix s u"
| "wf_CMatrix s (ConjTranspose u) = wf_CMatrix s u"
| "wf_CMatrix s (Foreign r c f) = True"

text \<open>The slice an operand reads its entries from, and the separation of a
  destination's slice, up to its capacity, from an operand's slice.\<close>

fun storage :: "store \<Rightarrow> CMatrix \<Rightarrow> slice" where
  "storage s (Dense p) = Data (CDense.mat (denses s ! p))"
| "storage s (Diag p) = Vector.Data (DiagCDense.mat (diags s ! p))"
| "storage s (CTranspose u) = storage s u"
| "storage s (ConjTranspose u) = storage s u"
| "storage s (Foreign r c f) = nil_slice"

definition apart :: "slice \<Rightarrow> slice \<Rightarrow> bool" where
  "apart d e \<longleftrightarrow> cap d = 0 \<or> len e = 0 \<or> ptr d + cap d \<le> ptr e \<or> ptr e + len e \<le> ptr d"

text \<open>The entry of an operand as a value, without the checks of \<open>At\<close>.\<close>

fun entry :: "store \<Rightarrow> CMatrix \<Rightarrow> nat \<Rightarrow> nat \<Rightarrow> complex128" where
  "entry s (Dense p) i j = mem s ! cell (CDense.mat (denses s ! p)) i j"
| "entry s (Diag p) i j =
     (if i \<noteq> j then 0
      else mem s ! (ptr (Vector.Data (DiagCDense.mat (diags s ! p)))
                     + i * Inc (DiagCDense.mat (diags s ! p))))"
| "entry s (CTranspose u) i j = entry s u j i"
| "entry s (ConjTranspose u) i j = cnj (entry s u j i)"
| "entry s (Foreign r c f) i j = f i j"

text \<open>\<open>evolves MD DD W s s'\<close>: from \<open>s\<close> to \<open>s'\<close> the memory and the object tables have
  grown at most, every dense object outside \<open>MD\<close> and every diagonal object outside \<open>DD\<close>
  has kept its header, and every cell outside \<open>W\<close> its value.\<close>

definition evolves :: "nat set \<Rightarrow> nat set \<Rightarrow> nat set \<Rightarrow> store \<Rightarrow> store \<Rightarrow> bool" where
  "evolves MD DD W s s' \<longleftrightarrow>
     length (denses s) \<le> length (denses s') \<and>
     length (diags s) \<le> length (diags s') \<and>
     length (mem s) \<le> length (mem s') \<and>
     (\<forall>p. p < length (denses s) \<and> p \<notin> MD \<longrightarrow> denses s' ! p = denses s ! p) \<and>
     (\<forall>p. p < length (diags s) \<and> p \<notin> DD \<longrightarrow> diags s' ! p = diags s ! p) \<and>
     (\<forall>k. k < length (mem s) \<and> k \<notin> W \<longrightarrow> mem s' ! k = mem s ! k)"

text \<open>The object an operand is a view of.\<close>

fun base :: "CMatrix \<Rightarrow> CMatrix" where
  "base (CTranspose u) = base u"
| "base (ConjTranspose u) = base u"
| "base a = a"

text \<open>The cells of a slice up to its length and up to its capacity, the cells of the
  first \<open>r\<close> rows and \<open>c\<close> columns of a matrix header and of the first \<open>n\<close> elements of a
  vector header, and \<open>inside W s s'\<close>: the store \<open>s'\<close> is \<open>s\<close> but for the values of cells
  in \<open>W\<close>.\<close>

definition span :: "slice \<Rightarrow> nat set" where
  "span e = {ptr e ..< ptr e + len e}"

definition room :: "slice \<Rightarrow> nat set" where
  "room d = {ptr d ..< ptr d + cap d}"

definition cells :: "General \<Rightarrow> nat \<Rightarrow> nat \<Rightarrow> nat set" where
  "cells g r c = {k. \<exists>i j. i < r \<and> j < c \<and> k = cell g i j}"

definition vcells :: "Vector \<Rightarrow> nat \<Rightarrow> nat set" where
  "vcells v n = {k. \<exists>i. i < n \<and> k = ptr (Vector.Data v) + i * Inc v}"

definition inside :: "nat set \<Rightarrow> store \<Rightarrow> store \<Rightarrow> bool" where
  "inside W s s' \<longleftrightarrow>
     denses s' = denses s \<and> diags s' = diags s \<and> length (mem s') = length (mem s) \<and>
     (\<forall>k. k \<notin> W \<longrightarrow> mem s' ! k = mem s ! k)"

fun untouched :: "nat set \<Rightarrow> nat set \<Rightarrow> CMatrix \<Rightarrow> bool" where
  "untouched MD DD (Dense p) = (p \<notin> MD)"
| "untouched MD DD (Diag p) = (p \<notin> DD)"
| "untouched MD DD (CTranspose u) = untouched MD DD u"
| "untouched MD DD (ConjTranspose u) = untouched MD DD u"
| "untouched MD DD (Foreign r c f) = True"

section \<open>The examples of the test file\<close>

text \<open>The empty store, a slice literal \<open>[]complex128{...}\<close> and a declaration
  \<open>var c mat.CDense\<close> of a zero value.\<close>

definition empty_store :: store where
  "empty_store = \<lparr>mem = [], denses = [], diags = []\<rparr>"

definition slice_lit :: "store \<Rightarrow> complex128 list \<Rightarrow> slice \<times> store" where
  "slice_lit s xs =
     (\<lparr>ptr = length (mem s), len = length xs, cap = length xs\<rparr>, s\<lparr>mem := mem s @ xs\<rparr>)"

definition var_CDense :: "store \<Rightarrow> nat \<times> store" where
  "var_CDense s =
     (length (denses s),
      s\<lparr>denses := denses s @
          [\<lparr>CDense.mat = \<lparr>Rows = 0, Cols = 0, Stride = 0, Data = nil_slice\<rparr>,
            capRows = 0, capCols = 0\<rparr>]\<rparr>)"

text \<open>Modelled from the spec: \<open>NewCDense\<close> is missing from the sources.  Section 6:
  \<open>new_dense(rows, cols, data)\<close> validates the dimensions and the length of the data and
  fails on a mismatch; the checks are those of \<open>NewDiagCDense\<close>, the layout is row-major
  with the stride equal to the number of columns.\<close>

definition NewCDense :: "store \<Rightarrow> int \<Rightarrow> int \<Rightarrow> slice option \<Rightarrow> (nat \<times> store) res" where
  "NewCDense s r c data =
     (if r \<le> 0 \<or> c \<le> 0 then
        (if r = 0 \<or> c = 0 then Inl (ErrZeroLength, s) else Inl (NegativeDimension, s))
      else
        let (data', s1) = (case data of None \<Rightarrow> make s (nat (r * c)) | Some d \<Rightarrow> (d, s)) in
        if int (len data') \<noteq> r * c then Inl (ErrShape, s1)
        else Inr (length (denses s1),
                  s1\<lparr>denses := denses s1 @
                      [\<lparr>CDense.mat = \<lparr>Rows = nat r, Cols = nat c, Stride = nat c, Data = data'\<rparr>,
                        capRows = nat r, capCols = nat c\<rparr>]\<rparr>))"

text \<open>\<open>ExampleCDense_Sub\<close> and \<open>ExampleCDense_Add\<close> (cdense_example_test.go), up to the
  call of the method: the result is the pointer to the destination and the final
  store.\<close>

definition ExampleCDense_Sub :: "(nat \<times> store) res" where
  "ExampleCDense_Sub =
     (let (da, s1) = slice_lit empty_store [1 + \<i>, 0, 1 + 0 * \<i>, 2 * \<i>] in
      bindE (NewCDense s1 2 2 (Some da)) (\<lambda>(a, s2).
        let (db, s3) = slice_lit s2 [0, \<i>, 0, 3 + 2 * \<i>] in
        bindE (NewCDense s3 2 2 (Some db)) (\<lambda>(b, s4).
          bindE (CDense_Sub s4 a (Dense a) (Dense b)) (\<lambda>s5. Inr (a, s5)))))"

definition ExampleCDense_Add :: "(nat \<times> store) res" where
  "ExampleCDense_Add =
     (let (da, s1) = slice_lit empty_store [1 + \<i>, 0, 1 + 0 * \<i>, 2 * \<i>] in
      bindE (NewCDense s1 2 2 (Some da)) (\<lambda>(a, s2).
        let (db, s3) = slice_lit s2 [0, \<i>, 0, 3 + 2 * \<i>] in
        bindE (NewCDense s3 2 2 (Some db)) (\<lambda>(b, s4).
          let (c, s5) = var_CDense s4 in
          bindE (CDense_Add s5 c (Dense a) (Dense b)) (\<lambda>s6. Inr (c, s6)))))"

text \<open>A store with the two dense matrices of the examples, two dense zero values, the
  dense matrix \<open>[[4]]\<close>, the diagonal matrix \<open>diag(5, 7)\<close> and a diagonal zero
  value.\<close>

definition example_store :: store where
  "example_store =
     \<lparr>mem = [1 + \<i>, 0, 1, 2 * \<i>, 0, \<i>, 0, 3 + 2 * \<i>, 5, 7, 4],
      denses =
        [\<lparr>CDense.mat = \<lparr>Rows = 2, Cols = 2, Stride = 2, Data = \<lparr>ptr = 0, len = 4, cap = 4\<rparr>\<rparr>,
          capRows = 2, capCols = 2\<rparr>,
         \<lparr>CDense.mat = \<lparr>Rows = 2, Cols = 2, Stride = 2, Data = \<lparr>ptr = 4, len = 4, cap = 4\<rparr>\<rparr>,
          capRows = 2, capCols = 2\<rparr>,
         \<lparr>CDense.mat = \<lparr>Rows = 0, Cols = 0, Stride = 0, Data = nil_slice\<rparr>,
          capRows = 0, capCols = 0\<rparr>,
         \<lparr>CDense.mat = \<lparr>Rows = 0, Cols = 0, Stride = 0, Data = nil_slice\<rparr>,
          capRows = 0, capCols = 0\<rparr>,
         \<lparr>CDense.mat = \<lparr>Rows = 1, Cols = 1, Stride = 1, Data = \<lparr>ptr = 10, len = 1, cap = 1\<rparr>\<rparr>,
          capRows = 1, capCols = 1\<rparr>],
      diags =
        [\<lparr>DiagCDense.mat = \<lparr>N = 2, Data = \<lparr>ptr = 8, len = 2, cap = 2\<rparr>, Inc = 1\<rparr>\<rparr>,
         \<lparr>DiagCDense.mat = \<lparr>N = 0, Data = nil_slice, Inc = 0\<rparr>\<rparr>]\<rparr>"

text \<open>A store with the dense matrices \<open>a = [[1, 2]]\<close> and \<open>b = [[3], [4]]\<close>, of one
  row and of one column, and a dense zero value \<open>c\<close>.\<close>

definition rect_store :: store where
  "rect_store =
     \<lparr>mem = [1, 2, 3, 4],
      denses =
        [\<lparr>CDense.mat = \<lparr>Rows = 1, Cols = 2, Stride = 2, Data = \<lparr>ptr = 0, len = 2, cap = 2\<rparr>\<rparr>,
          capRows = 1, capCols = 2\<rparr>,
         \<lparr>CDense.mat = \<lparr>Rows = 2, Cols = 1, Stride = 1, Data = \<lparr>ptr = 2, len = 2, cap = 2\<rparr>\<rparr>,
          capRows = 2, capCols = 1\<rparr>,
         \<lparr>CDense.mat = \<lparr>Rows = 0, Cols = 0, Stride = 0, Data = nil_slice\<rparr>,
          capRows = 0, capCols = 0\<rparr>],
      diags = []\<rparr>"

text \<open>A store in which two matrices share a backing array: with
  \<open>data = {10, 1, 2, 3, 4}\<close>, the dense matrix \<open>NewCDense(2, 2, data[0:4])\<close> and the diagonal
  matrix \<open>NewDiagCDense(2, data[3:5])\<close>; and, over an array of its own, the diagonal matrix
  \<open>diag(1i, 2)\<close>.\<close>

definition shared_store :: store where
  "shared_store =
     \<lparr>mem = [10, 1, 2, 3, 4, \<i>, 2],
      denses =
        [\<lparr>CDense.mat = \<lparr>Rows = 2, Cols = 2, Stride = 2, Data = \<lparr>ptr = 0, len = 4, cap = 5\<rparr>\<rparr>,
          capRows = 2, capCols = 2\<rparr>],
      diags =
        [\<lparr>DiagCDense.mat = \<lparr>N = 2, Data = \<lparr>ptr = 3, len = 2, cap = 2\<rparr>, Inc = 1\<rparr>\<rparr>,
         \<lparr>DiagCDense.mat = \<lparr>N = 2, Data = \<lparr>ptr = 5, len = 2, cap = 2\<rparr>, Inc = 1\<rparr>\<rparr>]\<rparr>"

text \<open>The entries of a matrix as \<open>At\<close> returns them, row by row.\<close>

definition entries :: "store \<Rightarrow> CMatrix \<Rightarrow> complex128 res list list" where
  "entries s a =
     map (\<lambda>i. map (\<lambda>j. At s a i j) [0..<snd (Dims s a)]) [0..<fst (Dims s a)]"

text \<open>The store in which a call ended, whether it returned or panicked, and whether
  it returned.\<close>

definition final :: "store res \<Rightarrow> store" where
  "final r = (case r of Inl (e, s) \<Rightarrow> s | Inr s \<Rightarrow> s)"

definition returns :: "'a res \<Rightarrow> bool" where
  "returns r = (case r of Inl p \<Rightarrow> False | Inr v \<Rightarrow> True)"

text \<open>The transpose of the dense matrix \<open>a\<close> as a new dense matrix over a fresh buffer:
  the reference against which a transposed view is compared.  The result is the pointer
  to the new matrix.\<close>

definition materialize_T :: "store \<Rightarrow> nat \<Rightarrow> nat \<times> store" where
  "materialize_T s a =
     (let g = CDense.mat (denses s ! a);
          (data, s1) = make s (Rows g * Cols g);
          h = \<lparr>Rows = Cols g, Cols = Rows g, Stride = Rows g, Data = data\<rparr>
      in (length (denses s1),
          fill h (Cols g) (Rows g) (\<lambda>i j. mem s ! cell g j i)
            (s1\<lparr>denses := denses s1 @ [\<lparr>CDense.mat = h, capRows = Cols g, capCols = Rows g\<rparr>]\<rparr>)))"

text \<open>A store in which the first \<open>n\<close> elements of a strided vector have been given
  the values \<open>val i\<close>.\<close>

definition vfill :: "Vector \<Rightarrow> nat \<Rightarrow> (nat \<Rightarrow> complex128) \<Rightarrow> store \<Rightarrow> store" where
  "vfill v n val s = fold (\<lambda>i. poke (ptr (Vector.Data v) + i * Inc v) (val i)) [0..<n] s"

text \<open>The operations that change a \<open>DiagCDense\<close>, a run of such operations, each
  from the store in which the one before ended, and the invariant of the empty state:
  for every diagonal matrix of the store, the dimension is zero exactly when the
  increment is.\<close>

datatype diag_op =
    OpNew int "slice option"
  | OpReset nat
  | OpZero nat
  | OpDiagFrom nat CMatrix
  | OpReuse nat nat

fun apply_op :: "diag_op \<Rightarrow> store \<Rightarrow> store" where
  "apply_op (OpNew n data) s =
     (case NewDiagCDense s n data of Inl (e, s') \<Rightarrow> s' | Inr (d, s') \<Rightarrow> s')"
| "apply_op (OpReset d) s = final (DiagCDense_Reset s d)"
| "apply_op (OpZero d) s = final (DiagCDense_Zero s d)"
| "apply_op (OpDiagFrom d m) s = final (DiagCDense_DiagFrom s d m)"
| "apply_op (OpReuse d r) s = final (DiagCDense_reuseAsNonZeroed s d r)"

definition diag_inv :: "store \<Rightarrow> bool" where
  "diag_inv s \<longleftrightarrow>
     list_all (\<lambda>x. N (DiagCDense.mat x) = 0 \<longleftrightarrow> Inc (DiagCDense.mat x) = 0) (diags s)"

text \<open>A result that is not the panic \<open>ErrShape\<close>, and the clash of a non-empty
  destination with the non-zero dimensions \<open>r \<times> c\<close> of a result.\<close>

definition no_shape :: "'a res \<Rightarrow> bool" where
  "no_shape x = (case x of Inl (e, s) \<Rightarrow> e \<noteq> ErrShape | Inr v \<Rightarrow> True)"

definition shape_clash :: "store \<Rightarrow> nat \<Rightarrow> nat \<Rightarrow> nat \<Rightarrow> bool" where
  "shape_clash s m r c \<longleftrightarrow>
     r \<noteq> 0 \<and> c \<noteq> 0 \<and> \<not> CDense_IsEmpty s m \<and> CDense_Dims s m \<noteq> (r, c)"

text \<open>Section 7 of the spec names the failure for a non-positive size
  \<open>InvalidDimension\<close>; the code has a panic for a size of zero and another for a
  negative size.\<close>

definition InvalidDimension :: "error \<Rightarrow> bool" where
  "InvalidDimension e \<longleftrightarrow> e = ErrZeroLength \<or> e = NegativeDimension"

section \<open>Basic properties\<close>

lemma bindE_Inl [simp]: "bindE (Inl e) f = Inl e"
  by (simp add: bindE_def)

lemma bindE_Inr [simp]: "bindE (Inr v) f = f v"
  by (simp add: bindE_def)

lemma foldE_append: "foldE f (xs @ ys) s = bindE (foldE f xs s) (foldE f ys)"
  by (induction xs arbitrary: s) (auto simp: bindE_def split: sum.splits)

lemma poke_denses [simp]: "denses (poke k v s) = denses s"
  and poke_diags [simp]: "diags (poke k v s) = diags s"
  and poke_mem [simp]: "mem (poke k v s) = (mem s)[k := v]"
  by (simp_all add: poke_def)

lemma inside_refl [simp]: "inside W s s"
  by (simp add: inside_def)

lemma inside_poke: "inside W s t \<Longrightarrow> k \<in> W \<Longrightarrow> inside W s (poke k v t)"
  by (auto simp: inside_def) (metis nth_list_update_neq)

lemma inside_trans: "inside W s t \<Longrightarrow> inside W t u \<Longrightarrow> inside W s u"
  by (simp add: inside_def)

lemma foldE_pure:
  assumes "\<And>x t. x \<in> set xs \<Longrightarrow> inside W s t \<Longrightarrow> f x t = Inr (g x t) \<and> inside W s (g x t)"
    and "inside W s t"
  shows "foldE f xs t = Inr (fold g xs t) \<and> inside W s (fold g xs t)"
  using assms
proof (induction xs arbitrary: t)
  case Nil
  then show ?case by simp
next
  case (Cons x xs)
  have 1: "f x t = Inr (g x t)" and 2: "inside W s (g x t)"
    using Cons.prems(1)[of x t] Cons.prems(2) by auto
  have "foldE f xs (g x t) = Inr (fold g xs (g x t)) \<and> inside W s (fold g xs (g x t))"
    by (rule Cons.IH) (use Cons.prems(1) 2 in auto)
  then show ?case by (simp add: 1)
qed

lemma fold_upd_length [simp]:
  "length (fold (\<lambda>x mm. mm[wa x := c x]) xs mm) = length mm"
  by (induction xs arbitrary: mm) auto

lemma fold_upd_nth_out:
  "k \<notin> wa ` set xs \<Longrightarrow> fold (\<lambda>x mm. mm[wa x := c x]) xs mm ! k = mm ! k"
  by (induction xs arbitrary: mm) auto

lemma fold_upd_nth_in:
  "distinct (map wa xs) \<Longrightarrow> x \<in> set xs \<Longrightarrow> wa x < length mm \<Longrightarrow>
     fold (\<lambda>x mm. mm[wa x := c x]) xs mm ! wa x = c x"
proof (induction xs arbitrary: mm)
  case Nil
  then show ?case by simp
next
  case (Cons y ys)
  show ?case
  proof (cases "x = y")
    case True
    then have "wa x \<notin> wa ` set ys" using Cons.prems(1) by auto
    then show ?thesis using True Cons.prems(3) by (simp add: fold_upd_nth_out)
  next
    case False
    then show ?thesis using Cons by auto
  qed
qed

lemma fold_poke_denses [simp]: "denses (fold (\<lambda>x. poke (wa x) (c x)) xs s) = denses s"
  by (induction xs arbitrary: s) auto

lemma fold_poke_diags [simp]: "diags (fold (\<lambda>x. poke (wa x) (c x)) xs s) = diags s"
  by (induction xs arbitrary: s) auto

lemma fold_poke_mem:
  "mem (fold (\<lambda>x. poke (wa x) (c x)) xs s) = fold (\<lambda>x mm. mm[wa x := c x]) xs (mem s)"
  by (induction xs arbitrary: s) auto

lemma cell_inj:
  assumes "cell g i j = cell g i' j'" "j < Stride g" "j' < Stride g"
  shows "i = i' \<and> j = j'"
proof -
  from assms(1) have e: "i * Stride g + j = i' * Stride g + j'"
    by (simp add: cell_def)
  have "(i * Stride g + j) div Stride g = i" "(i' * Stride g + j') div Stride g = i'"
    using assms(2,3) by simp_all
  with e have "i = i'" by simp
  with e show ?thesis by simp
qed

lemma fill_eq:
  "fill g r c val s = fold (\<lambda>x. poke (cell g (fst x) (snd x)) (val (fst x) (snd x))) (List.product [0..<r] [0..<c]) s"
  by (simp add: fill_def case_prod_unfold)

lemma fill_denses [simp]: "denses (fill g r c val s) = denses s"
  and fill_diags [simp]: "diags (fill g r c val s) = diags s"
  and fill_length [simp]: "length (mem (fill g r c val s)) = length (mem s)"
  by (simp_all add: fill_eq fold_poke_mem)

lemma fill_nth_out:
  "(\<And>i j. i < r \<Longrightarrow> j < c \<Longrightarrow> k \<noteq> cell g i j) \<Longrightarrow> mem (fill g r c val s) ! k = mem s ! k"
  unfolding fill_eq fold_poke_mem
  by (rule fold_upd_nth_out) fastforce

lemma fill_nth_in:
  assumes "c \<le> Stride g" "i < r" "j < c" "cell g i j < length (mem s)"
  shows "mem (fill g r c val s) ! cell g i j = val i j"
proof -
  let ?wa = "\<lambda>x. cell g (fst x) (snd x)"
  have inj: "inj_on ?wa ({0..<r} \<times> {0..<c})"
  proof (rule inj_onI)
    fix x y
    assume "x \<in> {0..<r} \<times> {0..<c}" "y \<in> {0..<r} \<times> {0..<c}"
      and e: "cell g (fst x) (snd x) = cell g (fst y) (snd y)"
    then have "snd x < Stride g" "snd y < Stride g"
      using assms(1) by auto
    from cell_inj[OF e this] show "x = y"
      by (simp add: prod_eq_iff)
  qed
  have d: "distinct (map ?wa (List.product [0..<r] [0..<c]))"
    by (simp add: distinct_map inj distinct_product)
  have "fold (\<lambda>x mm. mm[?wa x := val (fst x) (snd x)]) (List.product [0..<r] [0..<c]) (mem s) ! ?wa (i, j)
        = val (fst (i, j)) (snd (i, j))"
    by (rule fold_upd_nth_in[OF d]) (use assms in auto)
  then show ?thesis by (simp add: fill_eq fold_poke_mem)
qed

lemma fill_inside:
  "(\<And>i j. i < r \<Longrightarrow> j < c \<Longrightarrow> cell g i j \<in> W) \<Longrightarrow> inside W s (fill g r c val s)"
  by (auto simp: inside_def intro!: fill_nth_out)

lemma fold_fold_product:
  "fold (\<lambda>i. fold (h i) cs) rs s = fold (\<lambda>(i, j). h i j) (List.product rs cs) s"
  by (induction rs arbitrary: s) (simp_all add: fold_map comp_def)

section \<open>Reading an operand\<close>

lemma bindE_assoc: "bindE (bindE x f) g = bindE x (\<lambda>v. bindE (f v) g)"
  by (simp add: bindE_def split: sum.splits)

lemma apart_disjoint: "apart d e \<Longrightarrow> room d \<inter> span e = {}"
  by (auto simp: apart_def room_def span_def)

lemma cell_bound:
  assumes "wf_General s g" "i < Rows g" "j < Cols g"
  shows "i * Stride g + j < len (Data g)"
proof -
  from assms have S: "Stride g \<noteq> 0" and le: "(Rows g - 1) * Stride g + Cols g \<le> len (Data g)"
    by (auto simp: wf_General_def split: if_splits)
  have "i * Stride g \<le> (Rows g - 1) * Stride g"
    using assms(2) by (intro mult_le_mono1) simp
  then show ?thesis using le assms(3) by linarith
qed

lemma cell_in_span:
  "wf_General s g \<Longrightarrow> i < Rows g \<Longrightarrow> j < Cols g \<Longrightarrow> cell g i j \<in> span (Data g)"
  using cell_bound[of s g i j] by (simp add: cell_def span_def add.assoc)

lemma span_in_mem: "wf_slice s e \<Longrightarrow> k \<in> span e \<Longrightarrow> k < length (mem s)"
  by (auto simp: wf_slice_def span_def)

lemma vec_bound:
  assumes "wf_Vector s v" "i < N v"
  shows "i * Inc v < len (Vector.Data v)"
proof -
  from assms have le: "(N v - 1) * Inc v < len (Vector.Data v)"
    by (auto simp: wf_Vector_def split: if_splits)
  have "i * Inc v \<le> (N v - 1) * Inc v"
    using assms(2) by (intro mult_le_mono1) simp
  then show ?thesis using le by linarith
qed

lemma At_entry:
  "wf_CMatrix s a \<Longrightarrow> i < fst (Dims s a) \<Longrightarrow> j < snd (Dims s a) \<Longrightarrow>
     At s a i j = Inr (entry s a i j)"
proof (induction a arbitrary: i j)
  case (Dense p)
  then show ?case
    using cell_bound[of s "CDense.mat (denses s ! p)" i j]
    by (simp add: CDense_At_def CDense_Dims_def load_def cell_def Let_def add.assoc)
next
  case (Diag p)
  then show ?case
    using vec_bound[of s "DiagCDense.mat (diags s ! p)" i]
    by (auto simp: DiagCDense_At_def DiagCDense_Dims_def load_def Let_def)
qed simp_all

text \<open>Preservation of an operand\<close>

lemma evolves_operand:
  assumes "evolves MD DD W s s'"
  shows "wf_CMatrix s a \<Longrightarrow> untouched MD DD a \<Longrightarrow> W \<inter> span (storage s a) = {} \<Longrightarrow>
     wf_CMatrix s' a \<and> Dims s' a = Dims s a \<and> storage s' a = storage s a \<and>
     (\<forall>i j. i < fst (Dims s a) \<and> j < snd (Dims s a) \<longrightarrow> entry s' a i j = entry s a i j)"
proof (induction a)
  case (Dense p)
  let ?g = "CDense.mat (denses s ! p)"
  from Dense assms have h: "denses s' ! p = denses s ! p" and p: "p < length (denses s')"
    by (auto simp: evolves_def)
  have wf: "wf_General s ?g" using Dense by simp
  have len: "length (mem s) \<le> length (mem s')" using assms by (simp add: evolves_def)
  have wf': "wf_General s' ?g"
    using wf len by (auto simp: wf_General_def wf_slice_def)
  have ent: "mem s' ! cell ?g i j = mem s ! cell ?g i j" if "i < Rows ?g" "j < Cols ?g" for i j
  proof -
    have c: "cell ?g i j \<in> span (Data ?g)" using wf that by (rule cell_in_span)
    then have "cell ?g i j \<notin> W" using Dense.prems(3) by auto
    moreover have "cell ?g i j < length (mem s)"
      using c wf by (auto simp: wf_General_def intro: span_in_mem)
    ultimately show ?thesis using assms by (simp add: evolves_def)
  qed
  show ?case using h p wf' ent by (simp add: CDense_Dims_def)
next
  case (Diag p)
  let ?v = "DiagCDense.mat (diags s ! p)"
  from Diag assms have h: "diags s' ! p = diags s ! p" and p: "p < length (diags s')"
    by (auto simp: evolves_def)
  have wf: "wf_Vector s ?v" using Diag by simp
  have len: "length (mem s) \<le> length (mem s')" using assms by (simp add: evolves_def)
  have wf': "wf_Vector s' ?v"
    using wf len by (auto simp: wf_Vector_def wf_slice_def)
  have ent: "mem s' ! (ptr (Vector.Data ?v) + i * Inc ?v) = mem s ! (ptr (Vector.Data ?v) + i * Inc ?v)"
    if "i < N ?v" for i
  proof -
    have b: "i * Inc ?v < len (Vector.Data ?v)" using wf that by (rule vec_bound)
    then have c: "ptr (Vector.Data ?v) + i * Inc ?v \<in> span (Vector.Data ?v)"
      by (simp add: span_def)
    then have "ptr (Vector.Data ?v) + i * Inc ?v \<notin> W" using Diag.prems(3) by auto
    moreover have "ptr (Vector.Data ?v) + i * Inc ?v < length (mem s)"
      using c wf by (auto simp: wf_Vector_def intro: span_in_mem)
    ultimately show ?thesis using assms by (simp add: evolves_def)
  qed
  show ?case using h p wf' ent by (simp add: DiagCDense_Dims_def)
qed auto

lemma inside_evolves: "inside W s t \<Longrightarrow> evolves {} {} W s t"
  by (simp add: inside_def evolves_def)

lemma untouched_empty [simp]: "untouched {} {} a"
  by (induction a) auto

lemma inside_operand:
  assumes "inside W s t" "wf_CMatrix s a" "W \<inter> span (storage s a) = {}"
  shows "wf_CMatrix t a" "Dims t a = Dims s a"
    "i < fst (Dims s a) \<Longrightarrow> j < snd (Dims s a) \<Longrightarrow> At t a i j = Inr (entry s a i j)"
proof -
  note e = evolves_operand[OF inside_evolves[OF assms(1)] assms(2) untouched_empty assms(3)]
  show "wf_CMatrix t a" "Dims t a = Dims s a" using e by auto
  show "At t a i j = Inr (entry s a i j)" if "i < fst (Dims s a)" "j < snd (Dims s a)"
    using e that At_entry[of t a i j] by auto
qed

text \<open>A loop of \<open>set\<close> over all entries\<close>

lemma set_loop_fill:
  assumes rd: "\<And>t i j. inside (cells g r c) s t \<Longrightarrow> i < r \<Longrightarrow> j < c \<Longrightarrow> rd t i j = Inr (val i j)"
    and g: "g = CDense.mat (denses s ! m)" "wf_General s g" "r \<le> Rows g" "c \<le> Cols g"
  shows "foldE (\<lambda>i. foldE (\<lambda>j t. bindE (rd t i j) (\<lambda>v. CDense_set t m i j v)) [0..<c]) [0..<r] s
         = Inr (fill g r c val s)"
proof -
  let ?W = "cells g r c"
  have step: "bindE (rd t i j) (\<lambda>v. CDense_set t m i j v) = Inr (poke (cell g i j) (val i j) t)
      \<and> inside ?W s (poke (cell g i j) (val i j) t)"
    if "inside ?W s t" "i < r" "j < c" for t i j
  proof -
    have "denses t = denses s" using that(1) by (simp add: inside_def)
    moreover have "i * Stride g + j < len (Data g)"
      using g that by (intro cell_bound[of s]) auto
    ultimately have "CDense_set t m i j (val i j) = Inr (poke (cell g i j) (val i j) t)"
      using g(1) by (simp add: CDense_set_def assign_def poke_def cell_def Let_def add.assoc)
    moreover have "cell g i j \<in> ?W" using that by (auto simp: cells_def)
    ultimately show ?thesis using rd[OF that] that(1) by (simp add: inside_poke)
  qed
  have row: "foldE (\<lambda>j t. bindE (rd t i j) (\<lambda>v. CDense_set t m i j v)) [0..<c] t
        = Inr (fold (\<lambda>j. poke (cell g i j) (val i j)) [0..<c] t)
      \<and> inside ?W s (fold (\<lambda>j. poke (cell g i j) (val i j)) [0..<c] t)"
    if "inside ?W s t" "i < r" for t i
    by (rule foldE_pure[where W = ?W and s = s]) (use step that in auto)
  have "foldE (\<lambda>i. foldE (\<lambda>j t. bindE (rd t i j) (\<lambda>v. CDense_set t m i j v)) [0..<c]) [0..<r] s
        = Inr (fold (\<lambda>i. fold (\<lambda>j. poke (cell g i j) (val i j)) [0..<c]) [0..<r] s)
      \<and> inside ?W s (fold (\<lambda>i. fold (\<lambda>j. poke (cell g i j) (val i j)) [0..<c]) [0..<r] s)"
    by (rule foldE_pure[where W = ?W and s = s]) (use row in auto)
  then show ?thesis
    by (simp add: fold_fold_product fill_def)
qed

section \<open>The strided loop of \<open>Add\<close> and \<open>Sub\<close>\<close>

declare elem_rows.simps [simp del] Scale_rows.simps [simp del] Scale_rowsT.simps [simp del]

lemma row_fits:
  assumes "wf_General s g" "i < Rows g" "c \<le> Cols g"
  shows "i * Stride g + c \<le> cap (Data g)"
proof (cases "c = 0")
  case True
  have "i * Stride g + 0 < len (Data g)"
    using assms cell_bound[of s g i 0] by (auto simp: wf_General_def split: if_splits)
  then show ?thesis using True assms(1) by (simp add: wf_General_def wf_slice_def)
next
  case False
  then have "i * Stride g + (c - 1) < len (Data g)"
    using assms by (intro cell_bound[of s]) auto
  with False have "i * Stride g + c \<le> len (Data g)" by linarith
  moreover have "len (Data g) \<le> cap (Data g)"
    using assms(1) by (simp add: wf_General_def wf_slice_def)
  ultimately show ?thesis by linarith
qed

lemma inside_mem:
  "inside W s t \<Longrightarrow> k \<notin> W \<Longrightarrow> mem t ! k = mem s ! k"
  by (simp add: inside_def)

lemma elem_row_loop:
  assumes gm: "gm = CDense.mat (denses s ! m)" "wf_General s gm" "r \<le> Rows gm" "c \<le> Cols gm"
    and a: "wf_General s amat" "r \<le> Rows amat" "c \<le> Cols amat"
    and b: "wf_General s bmat" "r \<le> Rows bmat" "c \<le> Cols bmat"
    and sep: "cells gm r c \<inter> span (Data amat) = {}" "cells gm r c \<inter> span (Data bmat) = {}"
    and t: "inside (cells gm r c) s t" "i < r"
  shows "bindE (reslice t (Data amat) (i * Stride amat) (i * Stride amat + c))
           (\<lambda>row. foldE (elem_row f m row bmat (i * Stride bmat) (i * Stride gm)) [0..<len row] t)
         = Inr (fold (\<lambda>j. poke (cell gm i j) (f (mem s ! cell amat i j) (mem s ! cell bmat i j)))
                  [0..<c] t)
       \<and> inside (cells gm r c) s
           (fold (\<lambda>j. poke (cell gm i j) (f (mem s ! cell amat i j) (mem s ! cell bmat i j)))
              [0..<c] t)"
proof -
  let ?W = "cells gm r c"
  let ?row = "\<lparr>ptr = ptr (Data amat) + i * Stride amat, len = c,
               cap = cap (Data amat) - i * Stride amat\<rparr>"
  have fit: "i * Stride amat + c \<le> cap (Data amat)"
    using a t(2) by (intro row_fits[of s]) auto
  then have rs: "reslice t (Data amat) (i * Stride amat) (i * Stride amat + c) = Inr ?row"
    by (simp add: reslice_def)
  have step: "elem_row f m ?row bmat (i * Stride bmat) (i * Stride gm) j u
        = Inr (poke (cell gm i j) (f (mem s ! cell amat i j) (mem s ! cell bmat i j)) u)
      \<and> inside ?W s (poke (cell gm i j) (f (mem s ! cell amat i j) (mem s ! cell bmat i j)) u)"
    if u: "inside ?W s u" and j: "j < c" for u j
  proof -
    have ca: "cell amat i j \<in> span (Data amat)" using a t(2) j by (intro cell_in_span[of s]) auto
    have cb: "cell bmat i j \<in> span (Data bmat)" using b t(2) j by (intro cell_in_span[of s]) auto
    have ma: "mem u ! cell amat i j = mem s ! cell amat i j"
      using ca sep(1) by (intro inside_mem[OF u]) auto
    have mb: "mem u ! cell bmat i j = mem s ! cell bmat i j"
      using cb sep(2) by (intro inside_mem[OF u]) auto
    have bb: "i * Stride bmat + j < len (Data bmat)" using b t(2) j by (intro cell_bound[of s]) auto
    have bm: "i * Stride gm + j < len (Data gm)" using gm t(2) j by (intro cell_bound[of s]) auto
    have d: "denses u = denses s" using u by (simp add: inside_def)
    have w: "cell gm i j \<in> ?W" using t(2) j by (auto simp: cells_def)
    have "elem_row f m ?row bmat (i * Stride bmat) (i * Stride gm) j u
        = Inr (poke (cell gm i j) (f (mem u ! cell amat i j) (mem u ! cell bmat i j)) u)"
      using j bb bm d gm(1)
      by (simp add: elem_row_def load_def assign_def poke_def cell_def add.commute add.left_commute)
    then show ?thesis using ma mb w u by (simp add: inside_poke)
  qed
  have "foldE (elem_row f m ?row bmat (i * Stride bmat) (i * Stride gm)) [0..<c] t
        = Inr (fold (\<lambda>j. poke (cell gm i j) (f (mem s ! cell amat i j) (mem s ! cell bmat i j)))
                 [0..<c] t)
      \<and> inside ?W s (fold (\<lambda>j. poke (cell gm i j) (f (mem s ! cell amat i j) (mem s ! cell bmat i j)))
                 [0..<c] t)"
    by (rule foldE_pure[where W = ?W and s = s]) (use step t(1) in auto)
  then show ?thesis by (simp add: rs)
qed

lemma elem_rows_from:
  assumes gm: "gm = CDense.mat (denses s ! m)" "wf_General s gm" "r \<le> Rows gm" "c \<le> Cols gm"
    and a: "wf_General s amat" "r = Rows amat" "c \<le> Cols amat"
    and b: "wf_General s bmat" "r \<le> Rows bmat" "c \<le> Cols bmat"
    and sep: "cells gm r c \<inter> span (Data amat) = {}" "cells gm r c \<inter> span (Data bmat) = {}"
  shows "inside (cells gm r c) s t \<Longrightarrow> i0 \<le> r \<Longrightarrow>
     elem_rows f t m amat bmat r c (i0 * Stride amat) (i0 * Stride bmat) (i0 * Stride gm)
       = Inr (fold (\<lambda>i. fold (\<lambda>j. poke (cell gm i j)
                 (f (mem s ! cell amat i j) (mem s ! cell bmat i j))) [0..<c]) [i0..<r] t)"
proof (induction "r - i0" arbitrary: i0 t)
  case 0
  then have "i0 = r" by simp
  then show ?case by (subst elem_rows.simps) simp
next
  case (Suc k)
  then have i0: "i0 < r" by simp
  then have S: "0 < Stride amat" using a by (auto simp: wf_General_def split: if_splits)
  have cond: "i0 * Stride amat < r * Stride amat" using i0 S by simp
  let ?u = "fold (\<lambda>j. poke (cell gm i0 j) (f (mem s ! cell amat i0 j) (mem s ! cell bmat i0 j)))
              [0..<c] t"
  note row = elem_row_loop[OF gm a(1) _ a(3) b sep Suc.prems(1) i0, of f]
  have row1: "bindE (reslice t (Data amat) (i0 * Stride amat) (i0 * Stride amat + c))
           (\<lambda>row. foldE (elem_row f m row bmat (i0 * Stride bmat) (i0 * Stride gm)) [0..<len row] t)
         = Inr ?u" and u: "inside (cells gm r c) s ?u"
    using row a(2) by auto
  have du: "CDense.mat (denses t ! m) = gm" using Suc.prems(1) gm(1) by (simp add: inside_def)
  have IH: "elem_rows f ?u m amat bmat r c (Suc i0 * Stride amat) (Suc i0 * Stride bmat)
              (Suc i0 * Stride gm)
       = Inr (fold (\<lambda>i. fold (\<lambda>j. poke (cell gm i j)
                 (f (mem s ! cell amat i j) (mem s ! cell bmat i j))) [0..<c]) [Suc i0..<r] ?u)"
    by (rule Suc.hyps(1)) (use Suc.hyps(2) u i0 in auto)
  have "elem_rows f t m amat bmat r c (i0 * Stride amat) (i0 * Stride bmat) (i0 * Stride gm)
      = bindE (bindE (reslice t (Data amat) (i0 * Stride amat) (i0 * Stride amat + c))
           (\<lambda>row. foldE (elem_row f m row bmat (i0 * Stride bmat) (i0 * Stride gm)) [0..<len row] t))
          (\<lambda>s'. elem_rows f s' m amat bmat r c (i0 * Stride amat + Stride amat)
                  (i0 * Stride bmat + Stride bmat) (i0 * Stride gm + Stride (CDense.mat (denses s' ! m))))"
    using S i0 by (subst elem_rows.simps) (simp add: bindE_assoc)
  also have "\<dots> = elem_rows f ?u m amat bmat r c (Suc i0 * Stride amat) (Suc i0 * Stride bmat)
              (Suc i0 * Stride gm)"
    unfolding row1 by (simp add: du add.commute)
  finally show ?case
    using IH i0 by (simp add: upt_conv_Cons)
qed

lemma elem_rows_fill:
  assumes gm: "gm = CDense.mat (denses s ! m)" "wf_General s gm" "r \<le> Rows gm" "c \<le> Cols gm"
    and a: "wf_General s amat" "r = Rows amat" "c \<le> Cols amat"
    and b: "wf_General s bmat" "r \<le> Rows bmat" "c \<le> Cols bmat"
    and sep: "cells gm r c \<inter> span (Data amat) = {}" "cells gm r c \<inter> span (Data bmat) = {}"
  shows "elem_rows f s m amat bmat r c 0 0 0
       = Inr (fill gm r c (\<lambda>i j. f (mem s ! cell amat i j) (mem s ! cell bmat i j)) s)"
  using elem_rows_from[OF assms inside_refl, of 0 f]
  by (simp add: fold_fold_product fill_def)

section \<open>Resizing the destination\<close>

lemma fill_cong:
  "(\<And>i j. i < r \<Longrightarrow> j < c \<Longrightarrow> val i j = val' i j) \<Longrightarrow> fill g r c val s = fill g r c val' s"
  unfolding fill_def by (rule fold_cong) auto

lemma case_not_both_dense:
  "\<not> (\<exists>p q. a = Dense p \<and> b = Dense q) \<Longrightarrow>
     (case (a, b) of (Dense p, Dense q) \<Rightarrow> X p q | _ \<Rightarrow> Y) = Y"
  by (auto split: CMatrix.splits)

lemma cells_subset_span:
  "wf_General s g \<Longrightarrow> r \<le> Rows g \<Longrightarrow> c \<le> Cols g \<Longrightarrow> cells g r c \<subseteq> span (Data g)"
  by (auto simp: cells_def intro!: cell_in_span[of s])

lemma span_subset_room: "len d \<le> cap d \<Longrightarrow> span d \<subseteq> room d"
  by (auto simp: span_def room_def)

lemma nonempty_span:
  assumes "wf_CMatrix s a" "0 < fst (Dims s a)" "0 < snd (Dims s a)" "base a = Dense p"
  shows "storage s a = Data (CDense.mat (denses s ! p)) \<and> 0 < len (Data (CDense.mat (denses s ! p)))"
  using assms
proof (induction a)
  case (Dense q)
  then show ?case
    using cell_bound[of s "CDense.mat (denses s ! q)" 0 0] by (auto simp: CDense_Dims_def)
qed auto

lemma apart_untouched:
  assumes "wf_CMatrix s a" "0 < fst (Dims s a)" "0 < snd (Dims s a)"
    and "wf_General s (CDense.mat (denses s ! m))"
    and "apart (Data (CDense.mat (denses s ! m))) (storage s a)"
  shows "untouched {m} {} a"
proof -
  have "base a \<noteq> Dense m"
  proof
    assume "base a = Dense m"
    from nonempty_span[OF assms(1-3) this] assms(4,5) show False
      by (auto simp: apart_def wf_General_def wf_slice_def)
  qed
  then show ?thesis by (induction a) auto
qed

lemma untouched_receiver:
  "untouched {m} {} a \<Longrightarrow> \<not> is_receiver m a \<and> \<not> is_receiver m (fst (untransposeExtractCmplx a))"
  by (cases a rule: untransposeExtractCmplx.cases) (auto elim: is_receiver.elims)

lemma pred_mult: "0 < r \<Longrightarrow> (r - Suc 0) * c + c = r * (c::nat)"
  by (cases r) simp_all

lemma reuse_result:
  assumes m: "m < length (denses s)" "wf_General s (CDense.mat (denses s ! m))"
    and rc: "0 < r" "0 < c"
    and dest: "CDense_IsEmpty s m \<or> CDense_Dims s m = (r, c)"
  shows "\<exists>s1. CDense_reuseAsNonZeroed s m r c = Inr s1 \<and> evolves {m} {} {} s s1 \<and>
     length (denses s1) = length (denses s) \<and>
     wf_General s1 (CDense.mat (denses s1 ! m)) \<and>
     Rows (CDense.mat (denses s1 ! m)) = r \<and> Cols (CDense.mat (denses s1 ! m)) = c \<and>
     span (Data (CDense.mat (denses s1 ! m)))
       \<subseteq> room (Data (CDense.mat (denses s ! m))) \<union> {length (mem s)..<length (mem s1)}"
proof (cases "CDense_IsEmpty s m")
  case True
  show ?thesis
  proof (cases "r * c \<le> cap (Data (CDense.mat (denses s ! m)))")
    case le: True
    then show ?thesis using True m rc
      by (auto simp: CDense_reuseAsNonZeroed_def useC_def evolves_def wf_General_def wf_slice_def
          span_def room_def pred_mult)
  next
    case False
    then show ?thesis using True m rc
      by (auto simp: CDense_reuseAsNonZeroed_def useC_def make_def evolves_def wf_General_def
          wf_slice_def span_def room_def nth_append pred_mult)
  qed
next
  case False
  then have "CDense_Dims s m = (r, c)" using dest by simp
  then show ?thesis using False m rc
    by (auto simp: CDense_reuseAsNonZeroed_def CDense_Dims_def CDense_IsEmpty_def evolves_def
        wf_General_def wf_slice_def span_def room_def)
qed

section \<open>The result of \<open>Add\<close> and \<open>Sub\<close> for a separate destination\<close>

lemma overlap_span: "slices_overlap d e \<longleftrightarrow> span d \<inter> span e \<noteq> {}"
proof
  assume "slices_overlap d e"
  then have "max (ptr d) (ptr e) \<in> span d \<inter> span e"
    by (auto simp: slices_overlap_def span_def)
  then show "span d \<inter> span e \<noteq> {}" by blast
next
  assume "span d \<inter> span e \<noteq> {}"
  then show "slices_overlap d e"
    by (auto simp: slices_overlap_def span_def)
qed

lemma checkOverlap_ok:
  "span (Data (CDense.mat (denses s ! m))) \<inter> span (Data g) = {} \<Longrightarrow>
     CDense_checkOverlap s m g = Inr False"
  by (simp add: CDense_checkOverlap_def overlap_span)

lemma checkOverlapMatrix_ok:
  assumes "span (Data (CDense.mat (denses s ! m))) \<inter> span (storage s a) = {}"
  shows "CDense_checkOverlapMatrix s m (fst (untransposeExtractCmplx a)) = Inr False"
proof (cases a rule: untransposeExtractCmplx.cases)
  case (1 u)
  then show ?thesis using assms
    by (cases u) (simp_all add: CDense_checkOverlapMatrix_def checkOverlap_ok)
next
  case (2 u)
  then show ?thesis using assms
    by (cases u) (simp_all add: CDense_checkOverlapMatrix_def checkOverlap_ok)
qed (use assms in \<open>simp_all add: CDense_checkOverlapMatrix_def checkOverlap_ok\<close>)

lemma storage_wf: "wf_CMatrix s a \<Longrightarrow> wf_slice s (storage s a)"
  by (induction a) (auto simp: wf_General_def wf_Vector_def wf_slice_def nil_slice_def)

lemma elem_generic_fill:
  assumes gm: "gm = CDense.mat (denses s ! m)" "wf_General s gm" "Rows gm = r" "Cols gm = c"
    and a: "wf_CMatrix s a" "Dims s a = (r, c)"
    and b: "wf_CMatrix s b" "Dims s b = (r, c)"
    and sep: "span (Data gm) \<inter> span (storage s a) = {}" "span (Data gm) \<inter> span (storage s b) = {}"
  shows "elem_generic f s m a b r c
       = Inr (fill gm r c (\<lambda>i j. f (entry s a i j) (entry s b i j)) s)"
proof -
  have sub: "cells gm r c \<subseteq> span (Data gm)"
    using gm by (intro cells_subset_span[of s]) auto
  have "foldE (\<lambda>i. foldE (\<lambda>j t. bindE (bindE (At t a i j) (\<lambda>x. bindE (At t b i j) (\<lambda>y. Inr (f x y))))
                                 (\<lambda>v. CDense_set t m i j v)) [0..<c]) [0..<r] s
        = Inr (fill gm r c (\<lambda>i j. f (entry s a i j) (entry s b i j)) s)"
  proof (rule set_loop_fill[OF _ gm(1,2)])
    fix t i j
    assume t: "inside (cells gm r c) s t" and i: "i < r" and j: "j < c"
    have "At t a i j = Inr (entry s a i j)"
      using sub sep(1) a i j by (intro inside_operand(3)[OF t]) auto
    moreover have "At t b i j = Inr (entry s b i j)"
      using sub sep(2) b i j by (intro inside_operand(3)[OF t]) auto
    ultimately show "bindE (At t a i j) (\<lambda>x. bindE (At t b i j) (\<lambda>y. Inr (f x y)))
        = Inr (f (entry s a i j) (entry s b i j))"
      by simp
  qed (use gm in auto)
  then show ?thesis
    by (simp add: elem_generic_def bindE_assoc)
qed

lemma elem_op_fill:
  assumes reuse: "CDense_reuseAsNonZeroed s m r c = Inr s1"
    and gm: "gm = CDense.mat (denses s1 ! m)" "wf_General s1 gm" "Rows gm = r" "Cols gm = c"
    and a: "wf_CMatrix s1 a" "Dims s a = (r, c)" "Dims s1 a = (r, c)" "untouched {m} {} a"
    and b: "wf_CMatrix s1 b" "Dims s b = (r, c)" "Dims s1 b = (r, c)" "untouched {m} {} b"
    and sep: "span (Data gm) \<inter> span (storage s1 a) = {}" "span (Data gm) \<inter> span (storage s1 b) = {}"
  shows "elem_op f s m a b = Inr (fill gm r c (\<lambda>i j. f (entry s1 a i j) (entry s1 b i j)) s1)"
proof (cases "\<exists>p q. a = Dense p \<and> b = Dense q")
  case True
  then obtain p q where ab: "a = Dense p" "b = Dense q" by blast
  have pm: "p \<noteq> m" "q \<noteq> m" using a(4) b(4) ab by auto
  have sub: "cells gm r c \<subseteq> span (Data gm)"
    using gm by (intro cells_subset_span[of s1]) auto
  have rows: "elem_rows f s1 m (CDense.mat (denses s1 ! p)) (CDense.mat (denses s1 ! q)) r c 0 0 0
      = Inr (fill gm r c (\<lambda>i j. f (mem s1 ! cell (CDense.mat (denses s1 ! p)) i j)
                                   (mem s1 ! cell (CDense.mat (denses s1 ! q)) i j)) s1)"
    using gm a b sep sub ab
    by (intro elem_rows_fill) (auto simp: CDense_Dims_def)
  show ?thesis
    using ab pm a(2) b(2) sep gm(1)
    by (simp add: elem_op_def reuse checkOverlap_ok rows)
next
  case False
  have ra: "\<not> is_receiver m (fst (untransposeExtractCmplx a))"
    and rb: "\<not> is_receiver m (fst (untransposeExtractCmplx b))"
    using untouched_receiver a(4) b(4) by auto
  have ca: "CDense_checkOverlapMatrix s1 m (fst (untransposeExtractCmplx a)) = Inr False"
    and cb: "CDense_checkOverlapMatrix s1 m (fst (untransposeExtractCmplx b)) = Inr False"
    using sep gm(1) by (auto intro: checkOverlapMatrix_ok)
  have gen: "elem_generic f s1 m a b r c
      = Inr (fill gm r c (\<lambda>i j. f (entry s1 a i j) (entry s1 b i j)) s1)"
    using gm a b sep by (intro elem_generic_fill) auto
  show ?thesis
    using False a(2) b(2) ra rb ca cb gen
    by (cases a; cases b; simp add: elem_op_def reuse)
qed

lemma span_fresh:
  assumes "wf_slice s e"
  shows "span e \<inter> {length (mem s)..<n} = {}"
  using assms by (auto simp: span_def wf_slice_def)

lemma operand_after_reuse:
  assumes ev: "evolves {m} {} {} s s1"
    and a: "wf_CMatrix s a" "0 < fst (Dims s a)" "0 < snd (Dims s a)"
    and m: "wf_General s (CDense.mat (denses s ! m))"
    and ap: "apart (Data (CDense.mat (denses s ! m))) (storage s a)"
    and sp: "span (Data (CDense.mat (denses s1 ! m)))
        \<subseteq> room (Data (CDense.mat (denses s ! m))) \<union> {length (mem s)..<length (mem s1)}"
  shows "untouched {m} {} a" "wf_CMatrix s1 a" "Dims s1 a = Dims s a"
    "span (Data (CDense.mat (denses s1 ! m))) \<inter> span (storage s1 a) = {}"
    "\<And>i j. i < fst (Dims s a) \<Longrightarrow> j < snd (Dims s a) \<Longrightarrow> entry s1 a i j = entry s a i j"
proof -
  show ut: "untouched {m} {} a" using a m ap by (rule apart_untouched)
  note e = evolves_operand[OF ev a(1) ut]
  show "wf_CMatrix s1 a" "Dims s1 a = Dims s a" using e by auto
  show "entry s1 a i j = entry s a i j" if "i < fst (Dims s a)" "j < snd (Dims s a)" for i j
    using e that by auto
  have "storage s1 a = storage s a" using e by auto
  moreover have "room (Data (CDense.mat (denses s ! m))) \<inter> span (storage s a) = {}"
    using ap by (rule apart_disjoint)
  moreover have "span (storage s a) \<inter> {length (mem s)..<length (mem s1)} = {}"
    using a(1) by (intro span_fresh storage_wf)
  ultimately show "span (Data (CDense.mat (denses s1 ! m))) \<inter> span (storage s1 a) = {}"
    using sp by auto
qed

lemma At_fill:
  assumes "m < length (denses s)" "g = CDense.mat (denses s ! m)" "wf_General s g"
    "Rows g = r" "Cols g = c" "i < r" "j < c"
  shows "At (fill g r c val s) (Dense m) i j = Inr (val i j)"
proof -
  let ?t = "fill g r c val s"
  have wf: "wf_General ?t g" using assms(3) by (auto simp: wf_General_def wf_slice_def)
  have "At ?t (Dense m) i j = Inr (entry ?t (Dense m) i j)"
    using assms wf by (intro At_entry) (auto simp: CDense_Dims_def)
  moreover have "cell g i j < length (mem s)"
    using cell_in_span[of s g i j] assms
    by (auto simp: wf_General_def intro: span_in_mem)
  moreover have "c \<le> Stride g" using assms by (auto simp: wf_General_def split: if_splits)
  ultimately show ?thesis using assms by (simp add: fill_nth_in)
qed

lemma elem_op_result:
  assumes m: "m < length (denses s)" "wf_General s (CDense.mat (denses s ! m))"
    and dest: "CDense_IsEmpty s m \<or> CDense_Dims s m = (r, c)"
    and a: "wf_CMatrix s a" "Dims s a = (r, c)"
    and b: "wf_CMatrix s b" "Dims s b = (r, c)"
    and rc: "0 < r" "0 < c"
    and sep: "apart (Data (CDense.mat (denses s ! m))) (storage s a)"
             "apart (Data (CDense.mat (denses s ! m))) (storage s b)"
  shows "\<exists>s1 s'. CDense_reuseAsNonZeroed s m r c = Inr s1 \<and> elem_op f s m a b = Inr s' \<and>
     Dims s1 (Dense m) = (r, c) \<and> Dims s' (Dense m) = (r, c) \<and>
     Dims s' a = (r, c) \<and> Dims s' b = (r, c) \<and>
     (\<forall>i j. i < r \<and> j < c \<longrightarrow> At s' (Dense m) i j = Inr (f (entry s a i j) (entry s b i j)))"
proof -
  from reuse_result[OF m rc dest] obtain s1 where
    reuse: "CDense_reuseAsNonZeroed s m r c = Inr s1" and ev: "evolves {m} {} {} s s1"
    and len: "length (denses s1) = length (denses s)"
    and wf1: "wf_General s1 (CDense.mat (denses s1 ! m))"
    and d1: "Rows (CDense.mat (denses s1 ! m)) = r" "Cols (CDense.mat (denses s1 ! m)) = c"
    and sp: "span (Data (CDense.mat (denses s1 ! m)))
        \<subseteq> room (Data (CDense.mat (denses s ! m))) \<union> {length (mem s)..<length (mem s1)}"
    by blast
  let ?g = "CDense.mat (denses s1 ! m)"
  note oa = operand_after_reuse[OF ev a(1) _ _ m(2) sep(1) sp]
  note ob = operand_after_reuse[OF ev b(1) _ _ m(2) sep(2) sp]
  have pa: "0 < fst (Dims s a)" "0 < snd (Dims s a)" "0 < fst (Dims s b)" "0 < snd (Dims s b)"
    using a b rc by auto
  let ?s' = "fill ?g r c (\<lambda>i j. f (entry s1 a i j) (entry s1 b i j)) s1"
  have op: "elem_op f s m a b = Inr ?s'"
    using reuse wf1 d1 oa(1-4)[OF pa(1,2)] ob(1-4)[OF pa(3,4)] a b
    by (intro elem_op_fill) auto
  have ins: "inside (cells ?g r c) s1 ?s'"
    by (rule fill_inside) (auto simp: cells_def)
  have sub: "cells ?g r c \<subseteq> span (Data ?g)"
    using wf1 d1 by (intro cells_subset_span[of s1]) auto
  have da: "Dims ?s' a = (r, c)"
    using inside_operand(2)[OF ins oa(2)[OF pa(1,2)]] sub oa(3,4)[OF pa(1,2)] a by auto
  have db: "Dims ?s' b = (r, c)"
    using inside_operand(2)[OF ins ob(2)[OF pa(3,4)]] sub ob(3,4)[OF pa(3,4)] b by auto
  have ent: "At ?s' (Dense m) i j = Inr (f (entry s a i j) (entry s b i j))"
    if "i < r" "j < c" for i j
    using At_fill[of m s1 ?g r c i j] that m(1) len wf1 d1 oa(5)[OF pa(1,2)] ob(5)[OF pa(3,4)] a b
    by simp
  show ?thesis
    using reuse op d1 da db ent by (auto simp: CDense_Dims_def)
qed

section \<open>The strided loop of \<open>Scale\<close>, workspaces and copies\<close>

lemma Scale_row_loop:
  assumes gm: "gm = CDense.mat (denses s ! m)" "wf_General s gm" "r \<le> Rows gm" "c \<le> Cols gm"
    and a: "wf_General s amat" "r \<le> Rows amat" "c \<le> Cols amat"
    and sep: "cells gm r c \<inter> span (Data amat) = {}"
    and t: "inside (cells gm r c) s t" "i < r"
  shows "bindE (reslice t (Data amat) (i * Stride amat) (i * Stride amat + c))
           (\<lambda>row. foldE (\<lambda>j u. bindE (load u row j) (\<lambda>v.
                       assign u (Data (CDense.mat (denses u ! m))) (j + i * Stride gm) (v * f)))
                     [0..<len row] t)
         = Inr (fold (\<lambda>j. poke (cell gm i j) (mem s ! cell amat i j * f)) [0..<c] t)
       \<and> inside (cells gm r c) s
           (fold (\<lambda>j. poke (cell gm i j) (mem s ! cell amat i j * f)) [0..<c] t)"
proof -
  let ?W = "cells gm r c"
  let ?row = "\<lparr>ptr = ptr (Data amat) + i * Stride amat, len = c,
               cap = cap (Data amat) - i * Stride amat\<rparr>"
  have fit: "i * Stride amat + c \<le> cap (Data amat)"
    using a t(2) by (intro row_fits[of s]) auto
  then have rs: "reslice t (Data amat) (i * Stride amat) (i * Stride amat + c) = Inr ?row"
    by (simp add: reslice_def)
  have step: "bindE (load u ?row j) (\<lambda>v.
          assign u (Data (CDense.mat (denses u ! m))) (j + i * Stride gm) (v * f))
        = Inr (poke (cell gm i j) (mem s ! cell amat i j * f) u)
      \<and> inside ?W s (poke (cell gm i j) (mem s ! cell amat i j * f) u)"
    if u: "inside ?W s u" and j: "j < c" for u j
  proof -
    have ca: "cell amat i j \<in> span (Data amat)" using a t(2) j by (intro cell_in_span[of s]) auto
    have ma: "mem u ! cell amat i j = mem s ! cell amat i j"
      using ca sep by (intro inside_mem[OF u]) auto
    have bm: "i * Stride gm + j < len (Data gm)" using gm t(2) j by (intro cell_bound[of s]) auto
    have d: "denses u = denses s" using u by (simp add: inside_def)
    have w: "cell gm i j \<in> ?W" using t(2) j by (auto simp: cells_def)
    have "bindE (load u ?row j) (\<lambda>v.
          assign u (Data (CDense.mat (denses u ! m))) (j + i * Stride gm) (v * f))
        = Inr (poke (cell gm i j) (mem u ! cell amat i j * f) u)"
      using j bm d gm(1)
      by (simp add: load_def assign_def poke_def cell_def add.commute add.left_commute)
    then show ?thesis using ma w u by (simp add: inside_poke)
  qed
  have "foldE (\<lambda>j u. bindE (load u ?row j) (\<lambda>v.
                 assign u (Data (CDense.mat (denses u ! m))) (j + i * Stride gm) (v * f)))
          [0..<c] t
        = Inr (fold (\<lambda>j. poke (cell gm i j) (mem s ! cell amat i j * f)) [0..<c] t)
      \<and> inside ?W s (fold (\<lambda>j. poke (cell gm i j) (mem s ! cell amat i j * f)) [0..<c] t)"
    by (rule foldE_pure[where W = ?W and s = s]) (use step t(1) in auto)
  then show ?thesis by (simp add: rs)
qed

lemma Scale_rows_from:
  assumes gm: "gm = CDense.mat (denses s ! m)" "wf_General s gm" "r \<le> Rows gm" "c \<le> Cols gm"
    and a: "wf_General s amat" "r = Rows amat" "c \<le> Cols amat"
    and sep: "cells gm r c \<inter> span (Data amat) = {}"
  shows "inside (cells gm r c) s t \<Longrightarrow> i0 \<le> r \<Longrightarrow>
     Scale_rows t m f amat r c (i0 * Stride amat) (i0 * Stride gm)
       = Inr (fold (\<lambda>i. fold (\<lambda>j. poke (cell gm i j) (mem s ! cell amat i j * f)) [0..<c])
                [i0..<r] t)"
proof (induction "r - i0" arbitrary: i0 t)
  case 0
  then have "i0 = r" by simp
  then show ?case by (subst Scale_rows.simps) simp
next
  case (Suc k)
  then have i0: "i0 < r" by simp
  then have S: "0 < Stride amat" using a by (auto simp: wf_General_def split: if_splits)
  let ?u = "fold (\<lambda>j. poke (cell gm i0 j) (mem s ! cell amat i0 j * f)) [0..<c] t"
  note row = Scale_row_loop[OF gm a(1) _ a(3) sep Suc.prems(1) i0, of f]
  have row1: "bindE (reslice t (Data amat) (i0 * Stride amat) (i0 * Stride amat + c))
           (\<lambda>row. foldE (\<lambda>j u. bindE (load u row j) (\<lambda>v.
                       assign u (Data (CDense.mat (denses u ! m))) (j + i0 * Stride gm) (v * f)))
                     [0..<len row] t)
         = Inr ?u" and u: "inside (cells gm r c) s ?u"
    using row a(2) by auto
  have du: "CDense.mat (denses t ! m) = gm" using Suc.prems(1) gm(1) by (simp add: inside_def)
  have IH: "Scale_rows ?u m f amat r c (Suc i0 * Stride amat) (Suc i0 * Stride gm)
       = Inr (fold (\<lambda>i. fold (\<lambda>j. poke (cell gm i j) (mem s ! cell amat i j * f)) [0..<c])
                [Suc i0..<r] ?u)"
    by (rule Suc.hyps(1)) (use Suc.hyps(2) u i0 in auto)
  have "Scale_rows t m f amat r c (i0 * Stride amat) (i0 * Stride gm)
      = bindE (bindE (reslice t (Data amat) (i0 * Stride amat) (i0 * Stride amat + c))
           (\<lambda>row. foldE (\<lambda>j u. bindE (load u row j) (\<lambda>v.
                       assign u (Data (CDense.mat (denses u ! m))) (j + i0 * Stride gm) (v * f)))
                     [0..<len row] t))
          (\<lambda>s'. Scale_rows s' m f amat r c (i0 * Stride amat + Stride amat)
                  (i0 * Stride gm + Stride (CDense.mat (denses s' ! m))))"
    using S i0 by (subst Scale_rows.simps) (simp add: bindE_assoc)
  also have "\<dots> = Scale_rows ?u m f amat r c (Suc i0 * Stride amat) (Suc i0 * Stride gm)"
    unfolding row1 by (simp add: du add.commute)
  finally show ?case
    using IH i0 by (simp add: upt_conv_Cons)
qed

lemma Scale_rows_fill:
  assumes gm: "gm = CDense.mat (denses s ! m)" "wf_General s gm" "r \<le> Rows gm" "c \<le> Cols gm"
    and a: "wf_General s amat" "r = Rows amat" "c \<le> Cols amat"
    and sep: "cells gm r c \<inter> span (Data amat) = {}"
  shows "Scale_rows s m f amat r c 0 0 = Inr (fill gm r c (\<lambda>i j. mem s ! cell amat i j * f) s)"
  using Scale_rows_from[OF assms inside_refl, of 0 f]
  by (simp add: fold_fold_product fill_def)

lemma Copy_fill:
  assumes gm: "gm = CDense.mat (denses s ! m)" "wf_General s gm" "Rows gm = r" "Cols gm = c"
    and a: "wf_CMatrix s a" "Dims s a = (r, c)"
    and sep: "span (Data gm) \<inter> span (storage s a) = {}"
  shows "CDense_Copy s m a = Inr (fill gm r c (entry s a) s)"
proof -
  have sub: "cells gm r c \<subseteq> span (Data gm)"
    using gm by (intro cells_subset_span[of s]) auto
  have "foldE (\<lambda>i. foldE (\<lambda>j t. bindE (At t a i j) (\<lambda>v. CDense_set t m i j v)) [0..<c]) [0..<r] s
        = Inr (fill gm r c (entry s a) s)"
  proof (rule set_loop_fill[OF _ gm(1,2)])
    fix t i j
    assume t: "inside (cells gm r c) s t" and i: "i < r" and j: "j < c"
    show "At t a i j = Inr (entry s a i j)"
      using sub sep a i j by (intro inside_operand(3)[OF t]) auto
  qed (use gm in auto)
  then show ?thesis
    using a(2) by (simp add: CDense_Copy_def)
qed

lemma workspace_result:
  assumes "Dims s a = (r, c)" "0 < r" "0 < c"
  shows "\<exists>s2. CDense_isolatedWorkspace s m a = (length (denses s), s2) \<and>
     evolves {} {} {} s s2 \<and> length (denses s2) = Suc (length (denses s)) \<and>
     wf_General s2 (CDense.mat (denses s2 ! length (denses s))) \<and>
     Rows (CDense.mat (denses s2 ! length (denses s))) = r \<and>
     Cols (CDense.mat (denses s2 ! length (denses s))) = c \<and>
     span (Data (CDense.mat (denses s2 ! length (denses s))))
       = {length (mem s)..<length (mem s2)}"
  using assms
  by (auto simp: CDense_isolatedWorkspace_def make_def evolves_def nth_append wf_General_def
      wf_slice_def span_def pred_mult)

lemma wf_General_mono:
  "wf_General s g \<Longrightarrow> length (mem s) \<le> length (mem t) \<Longrightarrow> wf_General t g"
  by (auto simp: wf_General_def wf_slice_def)

lemma deferred_Inr [simp]: "deferred rst (Inr s) = rst s"
  by (simp add: deferred_def)

lemma wf_span_below:
  "wf_General s g \<Longrightarrow> span (Data g) \<inter> {length (mem s)..<n} = {}"
  by (intro span_fresh) (simp add: wf_General_def)

lemma nonempty_dims:
  "wf_General s g \<Longrightarrow> Stride g \<noteq> 0 \<Longrightarrow> 0 < Rows g \<and> 0 < Cols g"
  by (auto simp: wf_General_def)

text \<open>\<open>a.Scale(k, a)\<close> for a plain dense, non-empty \<open>a\<close>.\<close>

lemma Scale_aliased:
  assumes p: "p < length (denses s)" "wf_General s (CDense.mat (denses s ! p))"
    and ne: "\<not> CDense_IsEmpty s p"
  shows "\<exists>s'. CDense_Scale s p k (Dense p) = Inr s' \<and> Dims s' (Dense p) = Dims s (Dense p) \<and>
     (\<forall>i j. i < fst (Dims s (Dense p)) \<and> j < snd (Dims s (Dense p)) \<longrightarrow>
        At s' (Dense p) i j = Inr (entry s (Dense p) i j * k))"
proof -
  let ?g = "CDense.mat (denses s ! p)"
  let ?r = "Rows ?g" and ?c = "Cols ?g"
  have pos: "0 < ?r" "0 < ?c" using nonempty_dims[OF p(2)] ne by (auto simp: CDense_IsEmpty_def)
  have reuse: "CDense_reuseAsNonZeroed s p ?r ?c = Inr s"
    using pos ne by (simp add: CDense_reuseAsNonZeroed_def)
  have dims: "Dims s (Dense p) = (?r, ?c)" by (simp add: CDense_Dims_def)
  let ?w = "length (denses s)"
  from workspace_result[OF dims pos, of p] obtain s2 where
    ws: "CDense_isolatedWorkspace s p (Dense p) = (?w, s2)" and ev: "evolves {} {} {} s s2"
    and len2: "length (denses s2) = Suc ?w"
    and wfw: "wf_General s2 (CDense.mat (denses s2 ! ?w))"
    and dw: "Rows (CDense.mat (denses s2 ! ?w)) = ?r" "Cols (CDense.mat (denses s2 ! ?w)) = ?c"
    and spw: "span (Data (CDense.mat (denses s2 ! ?w))) = {length (mem s)..<length (mem s2)}"
    by blast
  let ?gw = "CDense.mat (denses s2 ! ?w)"
  have p2: "denses s2 ! p = denses s ! p" and mlen: "length (mem s) \<le> length (mem s2)"
    and m2: "\<And>k. k < length (mem s) \<Longrightarrow> mem s2 ! k = mem s ! k"
    using ev p(1) by (auto simp: evolves_def)
  have wfp2: "wf_General s2 ?g" using p(2) mlen by (rule wf_General_mono)
  have disj: "span (Data ?gw) \<inter> span (Data ?g) = {}"
    using wf_span_below[OF p(2), of "length (mem s2)"] spw by auto
  have subw: "cells ?gw ?r ?c \<subseteq> span (Data ?gw)"
    using wfw dw by (intro cells_subset_span[of s2]) auto
  let ?s3 = "fill ?gw ?r ?c (\<lambda>i j. mem s2 ! cell ?g i j * k) s2"
  have rows: "Scale_rows s2 ?w k ?g ?r ?c 0 0 = Inr ?s3"
    using wfw dw wfp2 disj subw by (intro Scale_rows_fill) auto
  have wfw3: "wf_General ?s3 ?gw" using wfw by (rule wf_General_mono) simp
  have wfp3: "wf_General ?s3 ?g" using wfp2 by (rule wf_General_mono) simp
  let ?s4 = "fill ?g ?r ?c (entry ?s3 (Dense ?w)) ?s3"
  have copy: "CDense_Copy ?s3 p (Dense ?w) = Inr ?s4"
    using wfp3 wfw3 dw len2 disj p2
    by (intro Copy_fill) (auto simp: CDense_Dims_def)
  have scale: "CDense_Scale s p k (Dense p) = Inr ?s4"
    using p2 by (simp add: CDense_Scale_def CDense_Dims_def reuse ws rows restore_def copy)
  have ent: "At ?s4 (Dense p) i j = Inr (entry s (Dense p) i j * k)" if ij: "i < ?r" "j < ?c" for i j
  proof -
    have "At ?s4 (Dense p) i j = Inr (entry ?s3 (Dense ?w) i j)"
      using ij p(1) len2 p2 wfp3 by (intro At_fill) auto
    moreover have cw: "cell ?gw i j \<in> span (Data ?gw)"
      using wfw dw ij by (intro cell_in_span[of s2]) auto
    then have "cell ?gw i j < length (mem s2)" using spw by simp
    moreover have "?c \<le> Stride ?gw" using wfw dw pos by (auto simp: wf_General_def split: if_splits)
    ultimately have "At ?s4 (Dense p) i j = Inr (mem s2 ! cell ?g i j * k)"
      using ij by (simp add: fill_nth_in)
    moreover have "cell ?g i j < length (mem s)"
      using cell_in_span[of s ?g i j] p(2) ij by (auto simp: wf_General_def intro: span_in_mem)
    ultimately show ?thesis using m2 by simp
  qed
  show ?thesis using scale ent dims p2 by (auto simp: CDense_Dims_def)
qed

text \<open>\<open>m.Scale(k, a)\<close> for a plain dense, non-empty \<open>a\<close> and a separate destination,
  and the copy of the result into \<open>a\<close>.\<close>

lemma Scale_separate_then_Copy:
  assumes p: "p < length (denses s)" "wf_General s (CDense.mat (denses s ! p))"
    and ne: "\<not> CDense_IsEmpty s p"
    and m: "m < length (denses s)" "wf_General s (CDense.mat (denses s ! m))"
      "CDense_IsEmpty s m \<or> CDense_Dims s m = Dims s (Dense p)"
    and sep: "apart (Data (CDense.mat (denses s ! m))) (Data (CDense.mat (denses s ! p)))"
  shows "\<exists>t1 t2. CDense_Scale s m k (Dense p) = Inr t1 \<and> CDense_Copy t1 p (Dense m) = Inr t2 \<and>
     Dims t2 (Dense p) = Dims s (Dense p) \<and>
     (\<forall>i j. i < fst (Dims s (Dense p)) \<and> j < snd (Dims s (Dense p)) \<longrightarrow>
        At t1 (Dense m) i j = Inr (entry s (Dense p) i j * k) \<and>
        At t2 (Dense p) i j = Inr (entry s (Dense p) i j * k))"
proof -
  let ?g = "CDense.mat (denses s ! p)"
  let ?r = "Rows ?g" and ?c = "Cols ?g"
  have pos: "0 < ?r" "0 < ?c" using nonempty_dims[OF p(2)] ne by (auto simp: CDense_IsEmpty_def)
  have dims: "Dims s (Dense p) = (?r, ?c)" by (simp add: CDense_Dims_def)
  have wfa: "wf_CMatrix s (Dense p)" using p by simp
  from reuse_result[OF m(1,2) pos] m(3) dims obtain s1 where
    reuse: "CDense_reuseAsNonZeroed s m ?r ?c = Inr s1" and ev: "evolves {m} {} {} s s1"
    and len: "length (denses s1) = length (denses s)"
    and wf1: "wf_General s1 (CDense.mat (denses s1 ! m))"
    and d1: "Rows (CDense.mat (denses s1 ! m)) = ?r" "Cols (CDense.mat (denses s1 ! m)) = ?c"
    and sp: "span (Data (CDense.mat (denses s1 ! m)))
        \<subseteq> room (Data (CDense.mat (denses s ! m))) \<union> {length (mem s)..<length (mem s1)}"
    by auto
  let ?gm = "CDense.mat (denses s1 ! m)"
  have dp: "0 < fst (Dims s (Dense p))" "0 < snd (Dims s (Dense p))" using pos dims by auto
  note oa = operand_after_reuse[OF ev wfa dp m(2) _ sp]
  have ut: "p \<noteq> m" and wfp1: "wf_General s1 (CDense.mat (denses s1 ! p))"
    and disj: "span (Data ?gm) \<inter> span (Data (CDense.mat (denses s1 ! p))) = {}"
    and e1: "\<And>i j. i < ?r \<Longrightarrow> j < ?c \<Longrightarrow> entry s1 (Dense p) i j = entry s (Dense p) i j"
    using oa sep dims by auto
  have p1: "denses s1 ! p = denses s ! p" using ev p(1) ut by (auto simp: evolves_def)
  have subm: "cells ?gm ?r ?c \<subseteq> span (Data ?gm)"
    using wf1 d1 by (intro cells_subset_span[of s1]) auto
  let ?t1 = "fill ?gm ?r ?c (\<lambda>i j. mem s1 ! cell ?g i j * k) s1"
  have rows: "Scale_rows s1 m k ?g ?r ?c 0 0 = Inr ?t1"
    using wf1 d1 wfp1 disj subm p1 by (intro Scale_rows_fill) auto
  have ck: "CDense_checkOverlap s1 m ?g = Inr False"
    using disj p1 by (intro checkOverlap_ok) simp
  have scale: "CDense_Scale s m k (Dense p) = Inr ?t1"
    using ut p1 by (simp add: CDense_Scale_def CDense_Dims_def reuse ck rows Let_def)
  have wfm_t1: "wf_General ?t1 ?gm" using wf1 by (rule wf_General_mono) simp
  have wfp_t1: "wf_General ?t1 ?g" using wfp1 p1 wf_General_mono[of s1 ?g ?t1] by simp
  let ?t2 = "fill ?g ?r ?c (entry ?t1 (Dense m)) ?t1"
  have copy: "CDense_Copy ?t1 p (Dense m) = Inr ?t2"
    using wfp_t1 wfm_t1 d1 len m(1) disj p1
    by (intro Copy_fill) (auto simp: CDense_Dims_def)
  have em: "At ?t1 (Dense m) i j = Inr (entry s (Dense p) i j * k)" if ij: "i < ?r" "j < ?c" for i j
    using At_fill[of m s1 ?gm ?r ?c i j "\<lambda>i j. mem s1 ! cell ?g i j * k"] ij m(1) len wf1 d1
      e1[OF ij] p1
    by simp
  have ep: "At ?t2 (Dense p) i j = Inr (entry s (Dense p) i j * k)" if ij: "i < ?r" "j < ?c" for i j
  proof -
    have "At ?t2 (Dense p) i j = Inr (entry ?t1 (Dense m) i j)"
      using ij p(1) len p1 wfp_t1 by (intro At_fill) auto
    moreover have "At ?t1 (Dense m) i j = Inr (entry ?t1 (Dense m) i j)"
      using ij m(1) len wfm_t1 d1 by (intro At_entry) (auto simp: CDense_Dims_def)
    ultimately show ?thesis using em[OF ij] by simp
  qed
  show ?thesis using scale copy em ep dims p1 by (auto simp: CDense_Dims_def)
qed

section \<open>Multiplication\<close>

lemma wf_fits: "wf_General s g \<Longrightarrow> fits g (Rows g) (Cols g)"
  by (auto simp: fits_def wf_General_def split: if_splits)

lemma plain_or_T_cases:
  assumes "a = Dense p \<or> a = CTranspose (Dense p)"
  shows "untransposeExtractCmplx a = (Dense p, a \<noteq> Dense p, False)"
  using assms by auto

lemma Mul_separate:
  assumes c: "c < length (denses s)" "wf_General s (CDense.mat (denses s ! c))"
      "CDense_IsEmpty s c \<or> CDense_Dims s c = (m, n)"
    and a: "a = Dense p \<or> a = CTranspose (Dense p)" "wf_CMatrix s a" "Dims s a = (m, k)"
    and b: "wf_CMatrix s (Dense q)" "Dims s (Dense q) = (k, n)"
    and sep: "apart (Data (CDense.mat (denses s ! c))) (storage s a)"
             "apart (Data (CDense.mat (denses s ! c))) (storage s (Dense q))"
    and pos: "0 < m" "0 < n"
  shows "\<exists>s'. CDense_Mul s c a (Dense q) = Inr s' \<and> Dims s' (Dense c) = (m, n) \<and>
     length (denses s') = length (denses s) \<and>
     CDense_Mul s c a (Dense q)
       = bindE (CDense_reuseAsNonZeroed s c m n) (\<lambda>s1.
           cblas128_Gemm s1 (if a = Dense p then NoTrans else Trans) NoTrans 1
             (CDense.mat (denses s1 ! p)) (CDense.mat (denses s1 ! q)) 0
             (CDense.mat (denses s1 ! c))) \<and>
     (\<forall>i j. i < m \<and> j < n \<longrightarrow>
        At s' (Dense c) i j = Inr (\<Sum>l\<leftarrow>[0..<k]. entry s a i l * entry s (Dense q) l j))"
proof -
  let ?ga = "CDense.mat (denses s ! p)" and ?gb = "CDense.mat (denses s ! q)"
  have wfp: "p < length (denses s)" "wf_General s ?ga" using a by auto
  have wfq: "q < length (denses s)" "wf_General s ?gb" using b by auto
  have kpos: "0 < k"
    using b(2) pos(2) wfq(2) by (auto simp: CDense_Dims_def wf_General_def split: if_splits)
  from reuse_result[OF c(1,2) pos c(3)] obtain s1 where
    reuse: "CDense_reuseAsNonZeroed s c m n = Inr s1" and ev: "evolves {c} {} {} s s1"
    and len: "length (denses s1) = length (denses s)"
    and wf1: "wf_General s1 (CDense.mat (denses s1 ! c))"
    and d1: "Rows (CDense.mat (denses s1 ! c)) = m" "Cols (CDense.mat (denses s1 ! c)) = n"
    and sp: "span (Data (CDense.mat (denses s1 ! c)))
        \<subseteq> room (Data (CDense.mat (denses s ! c))) \<union> {length (mem s)..<length (mem s1)}"
    by blast
  let ?gc = "CDense.mat (denses s1 ! c)"
  have da: "0 < fst (Dims s a)" "0 < snd (Dims s a)" using a(3) pos kpos by auto
  have db: "0 < fst (Dims s (Dense q))" "0 < snd (Dims s (Dense q))" using b(2) pos kpos by auto
  note oa = operand_after_reuse[OF ev a(2) da c(2) sep(1) sp]
  note ob = operand_after_reuse[OF ev b(1) db c(2) sep(2) sp]
  have pc: "p \<noteq> c" "q \<noteq> c" using oa(1) ob(1) a(1) by auto
  have p1: "denses s1 ! p = denses s ! p" "denses s1 ! q = denses s ! q"
    using ev wfp(1) wfq(1) pc by (auto simp: evolves_def)
  have sa: "storage s1 a = Data ?ga" using a(1) p1 by auto
  have cka: "CDense_checkOverlap s1 c ?ga = Inr False"
    using oa(4) sa by (intro checkOverlap_ok) simp
  have ckb: "CDense_checkOverlap s1 c ?gb = Inr False"
    using ob(4) p1 by (intro checkOverlap_ok) simp
  have wfa1: "wf_General s1 ?ga" "wf_General s1 ?gb"
    using oa(2) ob(2) a(1) p1 by auto
  have fit: "fits ?ga (Rows ?ga) (Cols ?ga)" "fits ?gb (Rows ?gb) (Cols ?gb)" "fits ?gc m n"
    using wfa1 wf1 d1 wf_fits by auto
  let ?tA = "if a \<noteq> Dense p then Trans else NoTrans"
  have dimsab: "(if ?tA = NoTrans then (Rows ?ga, Cols ?ga) else (Cols ?ga, Rows ?ga)) = (m, k)"
    "Rows ?gb = k" "Cols ?gb = n"
    using a(1,3) b(2) by (auto simp: CDense_Dims_def)
  let ?val = "\<lambda>i j. 1 * (\<Sum>l\<leftarrow>[0..<k]. op_at s1 ?tA ?ga i l * op_at s1 NoTrans ?gb l j)
                 + 0 * (mem s1 ! cell ?gc i j)"
  have gemm: "cblas128_Gemm s1 ?tA NoTrans 1 ?ga ?gb 0 ?gc = Inr (fill ?gc m n ?val s1)"
    using fit dimsab by (simp add: cblas128_Gemm_def split: if_splits)
  have mul: "CDense_Mul s c a (Dense q) = Inr (fill ?gc m n ?val s1)"
    using a(3) b(2) pc p1 plain_or_T_cases[OF a(1)] gemm a(1)
    by (auto simp: CDense_Mul_def reuse cka ckb)
  have opa: "op_at s1 ?tA ?ga i l = entry s a i l" if "i < m" "l < k" for i l
    using oa(5)[of i l] that a(1,3) p1 by (auto simp: op_at_def)
  have opb: "op_at s1 NoTrans ?gb l j = entry s (Dense q) l j" if "l < k" "j < n" for l j
    using ob(5)[of l j] that b(2) p1 by (auto simp: op_at_def)
  have val: "?val i j = (\<Sum>l\<leftarrow>[0..<k]. entry s a i l * entry s (Dense q) l j)"
    if "i < m" "j < n" for i j
  proof -
    have "map (\<lambda>l. op_at s1 ?tA ?ga i l * op_at s1 NoTrans ?gb l j) [0..<k]
        = map (\<lambda>l. entry s a i l * entry s (Dense q) l j) [0..<k]"
      using opa[OF that(1)] opb[OF _ that(2)] by (intro map_cong) auto
    then have "(\<Sum>l\<leftarrow>[0..<k]. op_at s1 ?tA ?ga i l * op_at s1 NoTrans ?gb l j)
        = (\<Sum>l\<leftarrow>[0..<k]. entry s a i l * entry s (Dense q) l j)"
      by (rule arg_cong)
    then show ?thesis by (simp only: mult_1 mult_zero_left add_0_right)
  qed
  have ent: "At (fill ?gc m n ?val s1) (Dense c) i j
      = Inr (\<Sum>l\<leftarrow>[0..<k]. entry s a i l * entry s (Dense q) l j)" if "i < m" "j < n" for i j
    using At_fill[of c s1 ?gc m n i j ?val] that c(1) len wf1 d1 val[OF that] by simp
  have flag: "CDense_Mul s c a (Dense q)
       = bindE (CDense_reuseAsNonZeroed s c m n) (\<lambda>s1.
           cblas128_Gemm s1 (if a = Dense p then NoTrans else Trans) NoTrans 1
             (CDense.mat (denses s1 ! p)) (CDense.mat (denses s1 ! q)) 0
             (CDense.mat (denses s1 ! c)))"
  proof (cases "a = Dense p")
    case True
    then show ?thesis using gemm p1 mul by (simp add: reuse)
  next
    case False
    then show ?thesis using gemm p1 mul by (simp add: reuse)
  qed
  show ?thesis using mul d1 len ent flag by (auto simp: CDense_Dims_def)
qed

section \<open>Where \<open>ErrShape\<close> can come from\<close>

lemma no_shape_Inr [simp]: "no_shape (Inr v)"
  by (simp add: no_shape_def)

lemma no_shape_Inl [simp]: "no_shape (Inl (e, s)) \<longleftrightarrow> e \<noteq> ErrShape"
  by (simp add: no_shape_def)

lemma no_shape_bindE: "no_shape x \<Longrightarrow> (\<And>v. no_shape (f v)) \<Longrightarrow> no_shape (bindE x f)"
  by (cases x) (auto simp: no_shape_def)

lemma no_shape_foldE: "(\<And>x s. no_shape (f x s)) \<Longrightarrow> no_shape (foldE f xs s)"
  by (induction xs arbitrary: s) (auto intro: no_shape_bindE)

lemma no_shape_deferred:
  assumes "no_shape r" "\<And>s. no_shape (rst s)"
  shows "no_shape (deferred rst r)"
proof (cases r)
  case (Inl p)
  obtain e s where p: "p = (e, s)" by (cases p)
  have "no_shape (rst s)" by (rule assms(2))
  then show ?thesis using assms(1) Inl p
    by (cases "rst s") (auto simp: deferred_def no_shape_def)
next
  case (Inr s)
  then show ?thesis using assms(2) by (simp add: deferred_def)
qed

lemma bindE_shape:
  assumes "\<And>v. no_shape (f v)"
  shows "bindE x f = Inl (ErrShape, s') \<longleftrightarrow> x = Inl (ErrShape, s')"
proof (cases x)
  case (Inl p)
  then show ?thesis by simp
next
  case (Inr v)
  have "no_shape (f v)" by (rule assms)
  then have "f v \<noteq> Inl (ErrShape, s')" by (auto simp: no_shape_def)
  then show ?thesis using Inr by simp
qed

lemma no_shape_load [simp]: "no_shape (load s d k)"
  and no_shape_assign [simp]: "no_shape (assign s d k v)"
  and no_shape_reslice [simp]: "no_shape (reslice s d lo hi)"
  by (simp_all add: load_def assign_def reslice_def)

lemma no_shape_At [simp]: "no_shape (At s a i j)"
  by (induction a arbitrary: i j)
    (auto simp: CDense_At_def DiagCDense_At_def Let_def intro!: no_shape_bindE)

lemma no_shape_set [simp]: "no_shape (CDense_set s m i j v)"
  by (simp add: CDense_set_def Let_def)

lemma no_shape_checkOverlap [simp]: "no_shape (CDense_checkOverlap s m g)"
  by (simp add: CDense_checkOverlap_def)

lemma no_shape_checkOverlapMatrix [simp]: "no_shape (CDense_checkOverlapMatrix s m a)"
  by (cases a) (simp_all add: CDense_checkOverlapMatrix_def)

lemma no_shape_Copy [simp]: "no_shape (CDense_Copy s m a)"
  unfolding CDense_Copy_def by (intro no_shape_foldE no_shape_bindE) simp_all

lemma no_shape_restore [simp]: "no_shape (restore m w s)"
  by (simp add: restore_def)

lemma no_shape_Gemm [simp]: "no_shape (cblas128_Gemm s tA tB alpha a b beta c)"
  by (simp add: cblas128_Gemm_def case_prod_unfold Let_def)

lemma no_shape_elem_row [simp]: "no_shape (elem_row f m row bmat jb jm i s)"
  unfolding elem_row_def by (intro no_shape_bindE) simp_all

lemma no_shape_elem_rows [simp]: "no_shape (elem_rows f s m amat bmat ar ac ja jb jm)"
proof (induction f s m amat bmat ar ac ja jb jm rule: elem_rows.induct)
  case (1 f s m amat bmat ar ac ja jb jm)
  show ?case
    by (subst elem_rows.simps) (auto intro!: no_shape_bindE no_shape_foldE 1)
qed

lemma no_shape_elem_generic [simp]: "no_shape (elem_generic f s m a b ar ac)"
  unfolding elem_generic_def by (intro no_shape_foldE no_shape_bindE) simp_all

lemma reuse_shape:
  "CDense_reuseAsNonZeroed s m r c = Inl (ErrShape, s') \<longleftrightarrow> s' = s \<and> shape_clash s m r c"
  by (auto simp: CDense_reuseAsNonZeroed_def shape_clash_def CDense_Dims_def Let_def
      case_prod_unfold)

lemma no_shape_elem_op:
  assumes "Dims s a = Dims s b"
    and "CDense_reuseAsNonZeroed s m (fst (Dims s a)) (snd (Dims s a)) = Inr s1"
  shows "no_shape (elem_op f s m a b)"
  using assms
  by (cases a; cases b)
    (simp_all add: elem_op_def case_prod_unfold Let_def no_shape_bindE no_shape_deferred)

lemma elem_op_shape:
  "elem_op f s m a b = Inl (ErrShape, s') \<longleftrightarrow>
     s' = s \<and> (shape_clash s m (fst (Dims s a)) (snd (Dims s a)) \<or> Dims s a \<noteq> Dims s b)"
proof (cases "Dims s a = Dims s b")
  case False
  then have "elem_op f s m a b = Inl (ErrShape, s)"
    by (auto simp: elem_op_def case_prod_unfold prod_eq_iff)
  then show ?thesis using False by auto
next
  case True
  show ?thesis
  proof (cases "CDense_reuseAsNonZeroed s m (fst (Dims s a)) (snd (Dims s a))")
    case (Inl p)
    then have "elem_op f s m a b = Inl p"
      using True by (simp add: elem_op_def case_prod_unfold)
    then show ?thesis using True Inl reuse_shape[of s m "fst (Dims s a)" "snd (Dims s a)" s']
      by auto
  next
    case (Inr s1)
    from no_shape_elem_op[OF True Inr, of f] have "elem_op f s m a b \<noteq> Inl (ErrShape, s')"
      by (auto simp: no_shape_def)
    then show ?thesis using True Inr reuse_shape[of s m "fst (Dims s a)" "snd (Dims s a)" s']
      by auto
  qed
qed

lemma no_shape_Mul:
  assumes "snd (Dims s a) = fst (Dims s b)"
    and "CDense_reuseAsNonZeroed s m (fst (Dims s a)) (snd (Dims s b)) = Inr s1"
  shows "no_shape (CDense_Mul s m a b)"
  using assms
  by (cases "fst (untransposeExtractCmplx a)"; cases "fst (untransposeExtractCmplx b)")
    (simp_all add: CDense_Mul_def case_prod_unfold Let_def no_shape_bindE no_shape_deferred)

lemma Mul_shape:
  "CDense_Mul s m a b = Inl (ErrShape, s') \<longleftrightarrow>
     s' = s \<and> (shape_clash s m (fst (Dims s a)) (snd (Dims s b)) \<or> snd (Dims s a) \<noteq> fst (Dims s b))"
proof (cases "snd (Dims s a) = fst (Dims s b)")
  case False
  then have "CDense_Mul s m a b = Inl (ErrShape, s)"
    by (auto simp: CDense_Mul_def case_prod_unfold)
  then show ?thesis using False by auto
next
  case True
  show ?thesis
  proof (cases "CDense_reuseAsNonZeroed s m (fst (Dims s a)) (snd (Dims s b))")
    case (Inl p)
    then have "CDense_Mul s m a b = Inl p"
      using True by (simp add: CDense_Mul_def case_prod_unfold)
    then show ?thesis using True Inl reuse_shape[of s m "fst (Dims s a)" "snd (Dims s b)" s']
      by auto
  next
    case (Inr s1)
    from no_shape_Mul[OF True Inr] have "CDense_Mul s m a b \<noteq> Inl (ErrShape, s')"
      by (auto simp: no_shape_def)
    then show ?thesis using True Inr reuse_shape[of s m "fst (Dims s a)" "snd (Dims s b)" s']
      by auto
  qed
qed

section \<open>Writing a strided vector\<close>

lemma vfill_eq:
  "vfill v n val s = fold (\<lambda>i. poke (ptr (Vector.Data v) + i * Inc v) (val i)) [0..<n] s"
  by (simp add: vfill_def)

lemma vfill_denses [simp]: "denses (vfill v n val s) = denses s"
  and vfill_diags [simp]: "diags (vfill v n val s) = diags s"
  and vfill_length [simp]: "length (mem (vfill v n val s)) = length (mem s)"
  by (simp_all add: vfill_eq fold_poke_mem)

lemma vfill_nth_out:
  "(\<And>i. i < n \<Longrightarrow> k \<noteq> ptr (Vector.Data v) + i * Inc v) \<Longrightarrow>
     mem (vfill v n val s) ! k = mem s ! k"
  unfolding vfill_eq fold_poke_mem
  by (rule fold_upd_nth_out) fastforce

lemma vfill_nth_in:
  assumes "0 < Inc v" "i < n" "ptr (Vector.Data v) + i * Inc v < length (mem s)"
  shows "mem (vfill v n val s) ! (ptr (Vector.Data v) + i * Inc v) = val i"
proof -
  let ?wa = "\<lambda>i. ptr (Vector.Data v) + i * Inc v"
  have "inj_on ?wa {0..<n}" using assms(1) by (auto simp: inj_on_def)
  then have d: "distinct (map ?wa [0..<n])" by (simp add: distinct_map)
  have "fold (\<lambda>x mm. mm[?wa x := val x]) [0..<n] (mem s) ! ?wa i = val i"
    by (rule fold_upd_nth_in[OF d]) (use assms in auto)
  then show ?thesis by (simp add: vfill_eq fold_poke_mem)
qed

lemma vfill_inside: "inside (vcells v n) s (vfill v n val s)"
  by (auto simp: inside_def vcells_def intro!: vfill_nth_out)

lemma vcells_subset_span:
  "wf_Vector s v \<Longrightarrow> n \<le> N v \<Longrightarrow> vcells v n \<subseteq> span (Vector.Data v)"
  using vec_bound[of s v] by (auto simp: vcells_def span_def)

lemma wf_Vector_mono:
  "wf_Vector s v \<Longrightarrow> length (mem s) \<le> length (mem t) \<Longrightarrow> wf_Vector t v"
  by (auto simp: wf_Vector_def wf_slice_def)

lemma setDiag_loop_vfill:
  assumes rd: "\<And>t i. inside (vcells v n) s t \<Longrightarrow> i < n \<Longrightarrow> rd t i = Inr (val i)"
    and v: "v = DiagCDense.mat (diags s ! d)" "wf_Vector s v" "n \<le> N v"
  shows "foldE (\<lambda>i t. bindE (rd t i) (\<lambda>x. DiagCDense_setDiag t d i x)) [0..<n] s
         = Inr (vfill v n val s)"
proof -
  let ?W = "vcells v n"
  have step: "bindE (rd t i) (\<lambda>x. DiagCDense_setDiag t d i x)
        = Inr (poke (ptr (Vector.Data v) + i * Inc v) (val i) t)
      \<and> inside ?W s (poke (ptr (Vector.Data v) + i * Inc v) (val i) t)"
    if "inside ?W s t" "i < n" for t i
  proof -
    have "diags t = diags s" using that(1) by (simp add: inside_def)
    moreover have "i * Inc v < len (Vector.Data v)"
      using v that by (intro vec_bound[of s]) auto
    ultimately have "DiagCDense_setDiag t d i (val i)
        = Inr (poke (ptr (Vector.Data v) + i * Inc v) (val i) t)"
      using v(1) by (simp add: DiagCDense_setDiag_def assign_def poke_def Let_def)
    moreover have "ptr (Vector.Data v) + i * Inc v \<in> ?W" using that by (auto simp: vcells_def)
    ultimately show ?thesis using rd[OF that] that(1) by (simp add: inside_poke)
  qed
  have "foldE (\<lambda>i t. bindE (rd t i) (\<lambda>x. DiagCDense_setDiag t d i x)) [0..<n] s
        = Inr (fold (\<lambda>i. poke (ptr (Vector.Data v) + i * Inc v) (val i)) [0..<n] s)
      \<and> inside ?W s (fold (\<lambda>i. poke (ptr (Vector.Data v) + i * Inc v) (val i)) [0..<n] s)"
    by (rule foldE_pure[where W = ?W and s = s]) (use step in auto)
  then show ?thesis by (simp add: vfill_def)
qed

lemma Copy_vfill:
  assumes x: "wf_Vector s x" "N x = n" and y: "wf_Vector s y" "N y = n"
    and sep: "vcells y n \<inter> span (Vector.Data x) = {}"
  shows "cblas128_Copy s x y
       = Inr (vfill y n (\<lambda>i. mem s ! (ptr (Vector.Data x) + i * Inc x)) s)"
proof -
  let ?W = "vcells y n"
  let ?val = "\<lambda>i. mem s ! (ptr (Vector.Data x) + i * Inc x)"
  have step: "bindE (load t (Vector.Data x) (i * Inc x)) (\<lambda>v. assign t (Vector.Data y) (i * Inc y) v)
        = Inr (poke (ptr (Vector.Data y) + i * Inc y) (?val i) t)
      \<and> inside ?W s (poke (ptr (Vector.Data y) + i * Inc y) (?val i) t)"
    if t: "inside ?W s t" and i: "i < n" for t i
  proof -
    have bx: "i * Inc x < len (Vector.Data x)" using x i by (intro vec_bound[of s]) auto
    have by': "i * Inc y < len (Vector.Data y)" using y i by (intro vec_bound[of s]) auto
    have "ptr (Vector.Data x) + i * Inc x \<in> span (Vector.Data x)" using bx by (simp add: span_def)
    then have "mem t ! (ptr (Vector.Data x) + i * Inc x) = ?val i"
      using sep by (intro inside_mem[OF t]) auto
    moreover have "ptr (Vector.Data y) + i * Inc y \<in> ?W" using i by (auto simp: vcells_def)
    ultimately show ?thesis using bx by' t
      by (simp add: load_def assign_def poke_def[symmetric] inside_poke)
  qed
  have "foldE (\<lambda>i t. bindE (load t (Vector.Data x) (i * Inc x))
                       (\<lambda>v. assign t (Vector.Data y) (i * Inc y) v)) [0..<n] s
        = Inr (fold (\<lambda>i. poke (ptr (Vector.Data y) + i * Inc y) (?val i)) [0..<n] s)
      \<and> inside ?W s (fold (\<lambda>i. poke (ptr (Vector.Data y) + i * Inc y) (?val i)) [0..<n] s)"
    by (rule foldE_pure[where W = ?W and s = s]) (use step in auto)
  then show ?thesis using x(2) y(2) by (simp add: cblas128_Copy_def vfill_def)
qed

text \<open>Copying a vector onto itself changes no cell.\<close>

lemma Copy_self:
  assumes "wf_Vector s x"
  shows "cblas128_Copy s x x = Inr s"
proof -
  have step: "bindE (load t (Vector.Data x) (i * Inc x)) (\<lambda>v. assign t (Vector.Data x) (i * Inc x) v)
        = Inr t \<and> inside {} s t"
    if t: "inside {} s t" and i: "i < N x" for t i
  proof -
    have "i * Inc x < len (Vector.Data x)" using assms i by (intro vec_bound[of s]) auto
    then show ?thesis using t by (simp add: load_def assign_def)
  qed
  have "foldE (\<lambda>i t. bindE (load t (Vector.Data x) (i * Inc x))
                       (\<lambda>v. assign t (Vector.Data x) (i * Inc x) v)) [0..<N x] s
        = Inr (fold (\<lambda>i t. t) [0..<N x] s) \<and> inside {} s (fold (\<lambda>i t. t) [0..<N x] s)"
    by (rule foldE_pure[where W = "{}" and s = s]) (use step in auto)
  moreover have "fold (\<lambda>i t. t) xs s = s" for xs :: "nat list"
    by (induction xs) auto
  ultimately show ?thesis by (simp add: cblas128_Copy_def)
qed

lemma diag_reuse_result:
  assumes d: "d < length (diags s)" "wf_Vector s (DiagCDense.mat (diags s ! d))"
    and n: "0 < n"
    and dest: "DiagCDense_IsEmpty s d \<or> N (DiagCDense.mat (diags s ! d)) = n"
  shows "\<exists>s1. DiagCDense_reuseAsNonZeroed s d n = Inr s1 \<and> evolves {} {d} {} s s1 \<and>
     length (diags s1) = length (diags s) \<and>
     wf_Vector s1 (DiagCDense.mat (diags s1 ! d)) \<and>
     N (DiagCDense.mat (diags s1 ! d)) = n \<and> 0 < Inc (DiagCDense.mat (diags s1 ! d)) \<and>
     (\<not> DiagCDense_IsEmpty s d \<longrightarrow> s1 = s) \<and>
     span (Vector.Data (DiagCDense.mat (diags s1 ! d)))
       \<subseteq> room (Vector.Data (DiagCDense.mat (diags s ! d))) \<union> {length (mem s)..<length (mem s1)}"
proof (cases "DiagCDense_IsEmpty s d")
  case True
  show ?thesis
  proof (cases "n \<le> cap (Vector.Data (DiagCDense.mat (diags s ! d)))")
    case le: True
    then show ?thesis using True d n
      by (auto simp: DiagCDense_reuseAsNonZeroed_def useC_def evolves_def wf_Vector_def
          wf_slice_def span_def room_def)
  next
    case False
    then show ?thesis using True d n
      by (auto simp: DiagCDense_reuseAsNonZeroed_def useC_def make_def evolves_def wf_Vector_def
          wf_slice_def span_def room_def nth_append)
  qed
next
  case False
  then have "N (DiagCDense.mat (diags s ! d)) = n" using dest by simp
  then show ?thesis using False d n
    by (auto simp: DiagCDense_reuseAsNonZeroed_def DiagCDense_IsEmpty_def evolves_def
        wf_Vector_def wf_slice_def span_def room_def)
qed

section \<open>Construction of a diagonal matrix\<close>

text \<open>Claim C8.  \<open>NewDiagCDense(n, data)\<close> panics when \<open>n \<le> 0\<close>, with \<open>ErrZeroLength\<close> for
  zero and with the negative-dimension panic below zero, and leaves the store as it
  was.  For a positive \<open>n\<close>, it panics with \<open>ErrShape\<close> when \<open>data\<close> is not nil and its
  length is not \<open>n\<close>; and when \<open>data\<close> is nil it allocates \<open>n\<close> fresh cells holding zero
  and returns a new diagonal matrix of size \<open>n\<close> with increment 1 over them.\<close>

theorem NewDiagCDense_cases:
  "(n \<le> 0 \<longrightarrow> (\<exists>e. NewDiagCDense s n data = Inl (e, s) \<and> InvalidDimension e \<and>
                   (e = ErrZeroLength \<longleftrightarrow> n = 0))) \<and>
   (0 < n \<and> data = Some d \<and> int (len d) \<noteq> n \<longrightarrow> NewDiagCDense s n data = Inl (ErrShape, s)) \<and>
   (0 < n \<longrightarrow>
      NewDiagCDense s n None =
        Inr (length (diags s),
             \<lparr>mem = mem s @ replicate (nat n) 0, denses = denses s,
              diags = diags s @
                [\<lparr>DiagCDense.mat =
                    \<lparr>N = nat n, Data = \<lparr>ptr = length (mem s), len = nat n, cap = nat n\<rparr>,
                     Inc = 1\<rparr>\<rparr>]\<rparr>))"
  by (auto simp: NewDiagCDense_def InvalidDimension_def make_def)

theorem NewDiagCDense_cases_witness:
  "NewDiagCDense empty_store 0 None = Inl (ErrZeroLength, empty_store) \<and>
   NewDiagCDense empty_store (- 1) None = Inl (NegativeDimension, empty_store) \<and>
   NewDiagCDense empty_store 2 (Some \<lparr>ptr = 0, len = 3, cap = 3\<rparr>) = Inl (ErrShape, empty_store) \<and>
   NewDiagCDense empty_store 2 None =
     Inr (0, \<lparr>mem = [0, 0], denses = [],
              diags = [\<lparr>DiagCDense.mat = \<lparr>N = 2, Data = \<lparr>ptr = 0, len = 2, cap = 2\<rparr>, Inc = 1\<rparr>\<rparr>]\<rparr>)"
  using NewDiagCDense_cases [of 0 empty_store None]
    NewDiagCDense_cases [of "- 1" empty_store None]
    NewDiagCDense_cases [of 2 empty_store "Some \<lparr>ptr = 0, len = 3, cap = 3\<rparr>"
      "\<lparr>ptr = 0, len = 3, cap = 3\<rparr>"]
    NewDiagCDense_cases [of 2 empty_store]
  by (auto simp: InvalidDimension_def empty_store_def numeral_2_eq_2)

section \<open>The subtraction example\<close>

text \<open>Claim C3.  For \<open>a = [[1+1i, 0], [1, 2i]]\<close> and \<open>b = [[0, 1i], [0, 3+2i]]\<close>, built
  as in \<open>ExampleCDense_Sub\<close>, the call \<open>a.Sub(a, b)\<close> returns and leaves
  \<open>[[1+1i, -1i], [1, -3]]\<close> in \<open>a\<close>.\<close>

theorem ExampleCDense_Sub_result:
  "(case ExampleCDense_Sub of
      Inl p \<Rightarrow> False
    | Inr (a, s) \<Rightarrow> entries s (Dense a) = [[Inr (1 + \<i>), Inr (- \<i>)], [Inr 1, Inr (- 3)]])"
  by code_simp

section \<open>Addition: commutativity and the empty destination\<close>

lemma entries_cong:
  assumes "Dims s a = (r, c)" "Dims t b = (r, c)"
    and "\<And>i j. i < r \<Longrightarrow> j < c \<Longrightarrow> At s a i j = At t b i j"
  shows "entries s a = entries t b"
  using assms by (simp add: entries_def)

text \<open>Claim C5.  Let \<open>a\<close> and \<open>b\<close> be well-formed operands of equal, non-zero
  dimensions, and \<open>c1\<close>, \<open>c2\<close> destinations that are empty or of those dimensions and
  whose storage is apart from the storage of \<open>a\<close> and of \<open>b\<close>.  Then \<open>c1.Add(a, b)\<close>
  and \<open>c2.Add(b, a)\<close> both return, and \<open>c1\<close> and \<open>c2\<close> have the same entry at every
  position, the sum of the entries of \<open>a\<close> and \<open>b\<close> there.\<close>

theorem Add_commutative:
  assumes c1: "c1 < length (denses s)" "wf_General s (CDense.mat (denses s ! c1))"
      "CDense_IsEmpty s c1 \<or> CDense_Dims s c1 = Dims s a"
    and c2: "c2 < length (denses s)" "wf_General s (CDense.mat (denses s ! c2))"
      "CDense_IsEmpty s c2 \<or> CDense_Dims s c2 = Dims s a"
    and ab: "wf_CMatrix s a" "wf_CMatrix s b" "Dims s a = Dims s b"
      "0 < fst (Dims s a)" "0 < snd (Dims s a)"
    and sep: "apart (Data (CDense.mat (denses s ! c1))) (storage s a)"
      "apart (Data (CDense.mat (denses s ! c1))) (storage s b)"
      "apart (Data (CDense.mat (denses s ! c2))) (storage s a)"
      "apart (Data (CDense.mat (denses s ! c2))) (storage s b)"
  shows "\<exists>s1 s2. CDense_Add s c1 a b = Inr s1 \<and> CDense_Add s c2 b a = Inr s2 \<and>
     entries s1 (Dense c1) = entries s2 (Dense c2) \<and>
     (\<forall>i j. i < fst (Dims s a) \<and> j < snd (Dims s a) \<longrightarrow>
        At s1 (Dense c1) i j = At s2 (Dense c2) i j \<and>
        At s1 (Dense c1) i j = Inr (entry s a i j + entry s b i j))"
proof -
  obtain r c where rc: "Dims s a = (r, c)" by (cases "Dims s a")
  then have rcb: "Dims s b = (r, c)" and pos: "0 < r" "0 < c" using ab by auto
  from elem_op_result[OF c1(1,2) _ ab(1) rc ab(2) rcb pos sep(1,2), of "\<lambda>x y. x + y"] c1(3) rc
  obtain s1 where 1: "CDense_Add s c1 a b = Inr s1" "Dims s1 (Dense c1) = (r, c)"
    "\<And>i j. i < r \<Longrightarrow> j < c \<Longrightarrow> At s1 (Dense c1) i j = Inr (entry s a i j + entry s b i j)"
    by (auto simp: CDense_Add_def)
  from elem_op_result[OF c2(1,2) _ ab(2) rcb ab(1) rc pos sep(4,3), of "\<lambda>x y. x + y"] c2(3) rc
  obtain s2 where 2: "CDense_Add s c2 b a = Inr s2" "Dims s2 (Dense c2) = (r, c)"
    "\<And>i j. i < r \<Longrightarrow> j < c \<Longrightarrow> At s2 (Dense c2) i j = Inr (entry s b i j + entry s a i j)"
    by (auto simp: CDense_Add_def)
  have eq: "At s1 (Dense c1) i j = At s2 (Dense c2) i j" if "i < r" "j < c" for i j
    using 1(3)[OF that] 2(3)[OF that] by (simp add: add.commute)
  have "entries s1 (Dense c1) = entries s2 (Dense c2)"
    using 1(2) 2(2) eq by (rule entries_cong)
  then show ?thesis using 1 2 eq rc by auto
qed

theorem Add_commutative_witness:
  "\<exists>s1 s2. CDense_Add example_store 2 (Dense 0) (CTranspose (Dense 1)) = Inr s1 \<and>
     CDense_Add example_store 3 (CTranspose (Dense 1)) (Dense 0) = Inr s2 \<and>
     entries s1 (Dense 2) = entries s2 (Dense 3) \<and>
     At s1 (Dense 2) 1 0 = At s2 (Dense 3) 1 0 \<and> At s1 (Dense 2) 1 0 = Inr (1 + \<i>)"
proof -
  have "\<exists>s1 s2. CDense_Add example_store 2 (Dense 0) (CTranspose (Dense 1)) = Inr s1 \<and>
     CDense_Add example_store 3 (CTranspose (Dense 1)) (Dense 0) = Inr s2 \<and>
     entries s1 (Dense 2) = entries s2 (Dense 3) \<and>
     (\<forall>i j. i < fst (Dims example_store (Dense 0)) \<and> j < snd (Dims example_store (Dense 0)) \<longrightarrow>
        At s1 (Dense 2) i j = At s2 (Dense 3) i j \<and>
        At s1 (Dense 2) i j
          = Inr (entry example_store (Dense 0) i j + entry example_store (CTranspose (Dense 1)) i j))"
    by (rule Add_commutative)
      (simp_all add: example_store_def wf_General_def wf_slice_def nil_slice_def apart_def
        CDense_IsEmpty_def CDense_Dims_def)
  then obtain s1 s2 where
    h: "CDense_Add example_store 2 (Dense 0) (CTranspose (Dense 1)) = Inr s1"
      "CDense_Add example_store 3 (CTranspose (Dense 1)) (Dense 0) = Inr s2"
      "entries s1 (Dense 2) = entries s2 (Dense 3)"
      "\<And>i j. i < fst (Dims example_store (Dense 0)) \<and> j < snd (Dims example_store (Dense 0)) \<Longrightarrow>
        At s1 (Dense 2) i j = At s2 (Dense 3) i j \<and>
        At s1 (Dense 2) i j
          = Inr (entry example_store (Dense 0) i j + entry example_store (CTranspose (Dense 1)) i j)"
    by blast
  have "At s1 (Dense 2) 1 0 = At s2 (Dense 3) 1 0 \<and> At s1 (Dense 2) 1 0 = Inr (1 + \<i>)"
    using h(4)[of 1 0] by (auto simp: example_store_def CDense_Dims_def cell_def)
  then show ?thesis using h(1-3) by blast
qed

text \<open>Claim C6.  Let \<open>dest\<close> be an empty destination and \<open>a\<close>, \<open>b\<close> well-formed
  operands of equal, non-zero dimensions whose storage is apart from what \<open>dest\<close> has
  kept.  Then the call of \<open>reuseAsNonZeroed\<close> with which \<open>Add\<close> begins gives \<open>dest\<close> the
  dimensions of \<open>a\<close>, and \<open>dest.Add(a, b)\<close> returns with \<open>dest\<close>, \<open>a\<close> and \<open>b\<close> of the
  same dimensions, those \<open>a\<close> had before.\<close>

theorem Add_resizes_empty:
  assumes d: "dest < length (denses s)" "wf_General s (CDense.mat (denses s ! dest))"
      "CDense_IsEmpty s dest"
    and ab: "wf_CMatrix s a" "wf_CMatrix s b" "Dims s a = Dims s b"
      "0 < fst (Dims s a)" "0 < snd (Dims s a)"
    and sep: "apart (Data (CDense.mat (denses s ! dest))) (storage s a)"
      "apart (Data (CDense.mat (denses s ! dest))) (storage s b)"
  shows "\<exists>s1 s'. CDense_reuseAsNonZeroed s dest (fst (Dims s a)) (snd (Dims s a)) = Inr s1 \<and>
     Dims s1 (Dense dest) = Dims s a \<and>
     CDense_Add s dest a b = Inr s' \<and>
     Dims s' (Dense dest) = Dims s' a \<and> Dims s' a = Dims s' b \<and> Dims s' a = Dims s a"
proof -
  obtain r c where rc: "Dims s a = (r, c)" by (cases "Dims s a")
  then have rcb: "Dims s b = (r, c)" and pos: "0 < r" "0 < c" using ab by auto
  from elem_op_result[OF d(1,2) _ ab(1) rc ab(2) rcb pos sep, of "\<lambda>x y. x + y"] d(3)
  show ?thesis using rc by (auto simp: CDense_Add_def)
qed

theorem Add_resizes_empty_witness:
  "\<exists>s1 s'. CDense_reuseAsNonZeroed example_store 2 2 2 = Inr s1 \<and>
     Dims s1 (Dense 2) = (2, 2) \<and>
     CDense_Add example_store 2 (Dense 0) (Dense 1) = Inr s' \<and>
     Dims s' (Dense 2) = Dims s' (Dense 0) \<and> Dims s' (Dense 0) = Dims s' (Dense 1) \<and>
     Dims s' (Dense 0) = (2, 2)"
proof -
  have "\<exists>s1 s'. CDense_reuseAsNonZeroed example_store 2 (fst (Dims example_store (Dense 0)))
         (snd (Dims example_store (Dense 0))) = Inr s1 \<and>
     Dims s1 (Dense 2) = Dims example_store (Dense 0) \<and>
     CDense_Add example_store 2 (Dense 0) (Dense 1) = Inr s' \<and>
     Dims s' (Dense 2) = Dims s' (Dense 0) \<and> Dims s' (Dense 0) = Dims s' (Dense 1) \<and>
     Dims s' (Dense 0) = Dims example_store (Dense 0)"
    by (rule Add_resizes_empty)
      (simp_all add: example_store_def wf_General_def wf_slice_def nil_slice_def apart_def
        CDense_IsEmpty_def CDense_Dims_def)
  moreover have "Dims example_store (Dense 0) = (2, 2)"
    by (simp add: example_store_def CDense_Dims_def)
  ultimately show ?thesis by simp
qed

section \<open>Scaling in place\<close>

text \<open>Claim C1.  Let \<open>a\<close> be a well-formed dense matrix and \<open>k\<close> a scalar.  If \<open>a\<close> is
  not empty, then \<open>a.Scale(k, a)\<close> returns, and so do \<open>tmp.Scale(k, a)\<close> for a freshly
  declared \<open>tmp\<close> and the copy of \<open>tmp\<close> into \<open>a\<close> after it; the two ways leave the same
  entries in \<open>a\<close>, each the former entry times \<open>k\<close>.  If \<open>a\<close> is empty, both \<open>a.Scale(k, a)\<close>
  and \<open>tmp.Scale(k, a)\<close> panic with \<open>ErrZeroLength\<close> and have changed nothing.\<close>

theorem Scale_in_place:
  assumes "a < length (denses s)" "wf_General s (CDense.mat (denses s ! a))"
  shows "if CDense_IsEmpty s a then
       CDense_Scale s a k (Dense a) = Inl (ErrZeroLength, s) \<and>
       CDense_Scale (snd (var_CDense s)) (fst (var_CDense s)) k (Dense a)
         = Inl (ErrZeroLength, snd (var_CDense s))
     else
       (\<exists>s1 t1 t2. CDense_Scale s a k (Dense a) = Inr s1 \<and>
          CDense_Scale (snd (var_CDense s)) (fst (var_CDense s)) k (Dense a) = Inr t1 \<and>
          CDense_Copy t1 a (Dense (fst (var_CDense s))) = Inr t2 \<and>
          entries s1 (Dense a) = entries t2 (Dense a) \<and>
          (\<forall>i j. i < fst (Dims s (Dense a)) \<and> j < snd (Dims s (Dense a)) \<longrightarrow>
             At s1 (Dense a) i j = Inr (entry s (Dense a) i j * k)))"
proof (cases "CDense_IsEmpty s a")
  case True
  then have z: "Rows (CDense.mat (denses s ! a)) = 0"
    using assms(2) by (simp add: CDense_IsEmpty_def wf_General_def)
  have "CDense_Scale s a k (Dense a) = Inl (ErrZeroLength, s)"
    using z by (simp add: CDense_Scale_def CDense_Dims_def CDense_reuseAsNonZeroed_def)
  moreover have "CDense_Scale (snd (var_CDense s)) (fst (var_CDense s)) k (Dense a)
         = Inl (ErrZeroLength, snd (var_CDense s))"
    using z assms(1)
    by (simp add: CDense_Scale_def CDense_Dims_def CDense_reuseAsNonZeroed_def var_CDense_def
        nth_append)
  ultimately show ?thesis using True by simp
next
  case False
  let ?tmp = "fst (var_CDense s)" and ?t = "snd (var_CDense s)"
  have tmp: "?tmp = length (denses s)" by (simp add: var_CDense_def)
  have at: "denses ?t ! a = denses s ! a" "mem ?t = mem s" "length (denses ?t) = Suc (length (denses s))"
    and zt: "CDense.mat (denses ?t ! ?tmp) = \<lparr>Rows = 0, Cols = 0, Stride = 0, Data = nil_slice\<rparr>"
    using assms(1) by (simp_all add: var_CDense_def nth_append)
  have dt: "Dims ?t (Dense a) = Dims s (Dense a)" "entry ?t (Dense a) = entry s (Dense a)"
    using at by (auto simp: CDense_Dims_def fun_eq_iff)
  from Scale_aliased[OF assms False, of k] obtain s1 where
    1: "CDense_Scale s a k (Dense a) = Inr s1" "Dims s1 (Dense a) = Dims s (Dense a)"
      "\<And>i j. i < fst (Dims s (Dense a)) \<Longrightarrow> j < snd (Dims s (Dense a)) \<Longrightarrow>
         At s1 (Dense a) i j = Inr (entry s (Dense a) i j * k)"
    by blast
  have "\<exists>t1 t2. CDense_Scale ?t ?tmp k (Dense a) = Inr t1 \<and> CDense_Copy t1 a (Dense ?tmp) = Inr t2 \<and>
     Dims t2 (Dense a) = Dims ?t (Dense a) \<and>
     (\<forall>i j. i < fst (Dims ?t (Dense a)) \<and> j < snd (Dims ?t (Dense a)) \<longrightarrow>
        At t1 (Dense ?tmp) i j = Inr (entry ?t (Dense a) i j * k) \<and>
        At t2 (Dense a) i j = Inr (entry ?t (Dense a) i j * k))"
  proof (rule Scale_separate_then_Copy)
    show "a < length (denses ?t)" using assms(1) at by simp
    show "wf_General ?t (CDense.mat (denses ?t ! a))"
      using wf_General_mono[OF assms(2), of ?t] at by simp
    show "\<not> CDense_IsEmpty ?t a" using False at by (simp add: CDense_IsEmpty_def)
    show "?tmp < length (denses ?t)" using at tmp by simp
    show "wf_General ?t (CDense.mat (denses ?t ! ?tmp))"
      by (simp add: zt wf_General_def wf_slice_def nil_slice_def)
    show "CDense_IsEmpty ?t ?tmp \<or> CDense_Dims ?t ?tmp = Dims ?t (Dense a)"
      by (simp add: CDense_IsEmpty_def zt)
    show "apart (Data (CDense.mat (denses ?t ! ?tmp))) (Data (CDense.mat (denses ?t ! a)))"
      by (simp add: zt apart_def nil_slice_def)
  qed
  then obtain t1 t2 where
    2: "CDense_Scale ?t ?tmp k (Dense a) = Inr t1" "CDense_Copy t1 a (Dense ?tmp) = Inr t2"
      "Dims t2 (Dense a) = Dims s (Dense a)"
      "\<And>i j. i < fst (Dims s (Dense a)) \<Longrightarrow> j < snd (Dims s (Dense a)) \<Longrightarrow>
         At t2 (Dense a) i j = Inr (entry s (Dense a) i j * k)"
    unfolding dt by blast
  have "entries s1 (Dense a) = entries t2 (Dense a)"
  proof (rule entries_cong)
    show "Dims s1 (Dense a) = (fst (Dims s (Dense a)), snd (Dims s (Dense a)))" using 1(2) by simp
    show "Dims t2 (Dense a) = (fst (Dims s (Dense a)), snd (Dims s (Dense a)))" using 2(3) by simp
  qed (use 1(3) 2(4) in simp)
  then show ?thesis using False 1 2 by auto
qed

theorem Scale_in_place_witness:
  "\<exists>s1 t1 t2. CDense_Scale example_store 0 \<i> (Dense 0) = Inr s1 \<and>
      CDense_Scale (snd (var_CDense example_store)) 5 \<i> (Dense 0) = Inr t1 \<and>
      CDense_Copy t1 0 (Dense 5) = Inr t2 \<and>
      entries s1 (Dense 0) = entries t2 (Dense 0) \<and>
      At s1 (Dense 0) 0 0 = Inr (- 1 + \<i>)"
proof -
  have e: "\<not> CDense_IsEmpty example_store 0" "fst (var_CDense example_store) = 5"
    "Dims example_store (Dense 0) = (2, 2)" "entry example_store (Dense 0) 0 0 = 1 + \<i>"
    by (simp_all add: example_store_def CDense_IsEmpty_def var_CDense_def CDense_Dims_def cell_def)
  have "0 < length (denses example_store)"
    "wf_General example_store (CDense.mat (denses example_store ! 0))"
    by (simp_all add: example_store_def wf_General_def wf_slice_def)
  from Scale_in_place[OF this, of \<i>] e obtain s1 t1 t2 where
    h: "CDense_Scale example_store 0 \<i> (Dense 0) = Inr s1"
      "CDense_Scale (snd (var_CDense example_store)) 5 \<i> (Dense 0) = Inr t1"
      "CDense_Copy t1 0 (Dense 5) = Inr t2"
      "entries s1 (Dense 0) = entries t2 (Dense 0)"
      "\<And>i j. i < 2 \<and> j < 2 \<Longrightarrow> At s1 (Dense 0) i j = Inr (entry example_store (Dense 0) i j * \<i>)"
    by auto
  have "At s1 (Dense 0) 0 0 = Inr (- 1 + \<i>)"
    using h(5)[of 0 0] e(4) by (simp add: algebra_simps)
  then show ?thesis using h(1-4) by blast
qed

section \<open>Multiplication by a transposed view\<close>

lemma materialize_T_result:
  assumes a: "a < length (denses s)" "wf_General s (CDense.mat (denses s ! a))"
    and ne: "\<not> CDense_IsEmpty s a"
  shows "\<exists>sT. materialize_T s a = (length (denses s), sT) \<and> evolves {} {} {} s sT \<and>
     length (denses sT) = Suc (length (denses s)) \<and>
     wf_General sT (CDense.mat (denses sT ! length (denses s))) \<and>
     Dims sT (Dense (length (denses s)))
       = (Cols (CDense.mat (denses s ! a)), Rows (CDense.mat (denses s ! a))) \<and>
     ptr (Data (CDense.mat (denses sT ! length (denses s)))) = length (mem s) \<and>
     (\<forall>i j. i < Cols (CDense.mat (denses s ! a)) \<and> j < Rows (CDense.mat (denses s ! a)) \<longrightarrow>
        entry sT (Dense (length (denses s))) i j = entry s (Dense a) j i)"
proof -
  let ?g = "CDense.mat (denses s ! a)"
  let ?R = "Rows ?g" and ?C = "Cols ?g"
  have pos: "0 < ?R" "0 < ?C" using nonempty_dims[OF a(2)] ne by (auto simp: CDense_IsEmpty_def)
  let ?h = "\<lparr>Rows = ?C, Cols = ?R, Stride = ?R,
             Data = \<lparr>ptr = length (mem s), len = ?R * ?C, cap = ?R * ?C\<rparr>\<rparr>"
  let ?s1 = "s\<lparr>mem := mem s @ replicate (?R * ?C) 0,
              denses := denses s @ [\<lparr>CDense.mat = ?h, capRows = ?C, capCols = ?R\<rparr>]\<rparr>"
  let ?sT = "fill ?h ?C ?R (\<lambda>i j. mem s ! cell ?g j i) ?s1"
  have mT: "materialize_T s a = (length (denses s), ?sT)"
    by (simp add: materialize_T_def make_def Let_def)
  have wfh: "wf_General ?s1 ?h"
    using pos pred_mult[of ?C ?R] by (simp add: wf_General_def wf_slice_def mult.commute)
  have sub: "cells ?h ?C ?R \<subseteq> span (Data ?h)"
    using wfh by (intro cells_subset_span[of ?s1]) auto
  have sph: "span (Data ?h) = {length (mem s)..<length (mem ?sT)}"
    by (simp add: span_def)
  have out: "mem ?sT ! k = mem s ! k" if "k < length (mem s)" for k
  proof -
    have "k \<noteq> cell ?h i j" if "i < ?C" "j < ?R" for i j
    proof -
      have "cell ?h i j \<in> cells ?h ?C ?R" using that by (auto simp: cells_def)
      then have "cell ?h i j \<in> span (Data ?h)" using sub by blast
      then show ?thesis using \<open>k < length (mem s)\<close> by (simp add: span_def)
    qed
    then have "mem ?sT ! k = mem ?s1 ! k"
      by (intro fill_nth_out) auto
    then show ?thesis using that by (simp add: nth_append)
  qed
  have ev: "evolves {} {} {} s ?sT"
    using out by (auto simp: evolves_def nth_append)
  have ent: "entry ?sT (Dense (length (denses s))) i j = entry s (Dense a) j i"
    if "i < ?C" "j < ?R" for i j
  proof -
    have "cell ?h i j \<in> span (Data ?h)" using wfh that by (intro cell_in_span[of ?s1]) auto
    then have "cell ?h i j < length (mem ?s1)" by (simp add: span_def)
    then have "mem ?sT ! cell ?h i j = mem s ! cell ?g j i"
      using that by (intro fill_nth_in) auto
    then show ?thesis by simp
  qed
  have "wf_General ?sT ?h" using wfh by (rule wf_General_mono) simp
  then show ?thesis using mT ev ent by (auto simp: CDense_Dims_def)
qed

text \<open>Claim C4, as stated, fails where the number of columns of \<open>a\<close> is the number of
  rows of \<open>b\<close> and the numbers of rows differ: with \<open>a = [[1, 2]]\<close>, \<open>b = [[3], [4]]\<close> and
  an empty \<open>c\<close>, the view \<open>a.T()\<close> has one column and \<open>b\<close> two rows, and \<open>c.Mul(a.T(), b)\<close>
  panics with \<open>ErrShape\<close> before anything is written.\<close>

theorem Mul_transposed_view_counterexample:
  "CDense_Dims rect_store 0 = (1, 2) \<and> CDense_Dims rect_store 1 = (2, 1) \<and>
   CDense_IsEmpty rect_store 2 \<and>
   CDense_Mul rect_store 2 (CDense_T 0) (Dense 1) = Inl (ErrShape, rect_store)"
  by code_simp

text \<open>Claim C4, amended.  Let \<open>a\<close> and \<open>b\<close> be well-formed, non-empty dense matrices and
  \<open>c\<close> a destination, empty or of the shape of the product, whose storage is apart from
  theirs.  If \<open>a\<close> and \<open>b\<close> have the same number of rows, the inner dimension of
  \<open>a.T() * b\<close>, then \<open>c.Mul(a.T(), b)\<close> returns, and so does \<open>c.Mul(aT, b)\<close> for the
  transpose \<open>aT\<close> of \<open>a\<close> materialized in a new matrix; \<open>c\<close> has the same entries after
  both, the sums over \<open>l\<close> of \<open>a(l, i) * b(l, j)\<close>.  With the view, \<open>Mul\<close> is the resize of
  \<open>c\<close> followed by one call of the kernel on the storage of \<open>a\<close> itself with the flag
  \<open>Trans\<close>, and the store holds no more matrices than before.  If the numbers of rows
  differ, both calls panic with \<open>ErrShape\<close> and have changed nothing.\<close>

theorem Mul_transposed_view:
  assumes a: "a < length (denses s)" "wf_General s (CDense.mat (denses s ! a))"
      "\<not> CDense_IsEmpty s a"
    and b: "b < length (denses s)" "wf_General s (CDense.mat (denses s ! b))"
      "\<not> CDense_IsEmpty s b"
    and c: "c < length (denses s)" "wf_General s (CDense.mat (denses s ! c))"
      "CDense_IsEmpty s c \<or>
       CDense_Dims s c = (Cols (CDense.mat (denses s ! a)), Cols (CDense.mat (denses s ! b)))"
    and sep: "apart (Data (CDense.mat (denses s ! c))) (Data (CDense.mat (denses s ! a)))"
      "apart (Data (CDense.mat (denses s ! c))) (Data (CDense.mat (denses s ! b)))"
  shows "if Rows (CDense.mat (denses s ! a)) = Rows (CDense.mat (denses s ! b)) then
       (\<exists>s1 s2. CDense_Mul s c (CDense_T a) (Dense b) = Inr s1 \<and>
          CDense_Mul (snd (materialize_T s a)) c (Dense (fst (materialize_T s a))) (Dense b) = Inr s2 \<and>
          entries s1 (Dense c) = entries s2 (Dense c) \<and>
          length (denses s1) = length (denses s) \<and>
          CDense_Mul s c (CDense_T a) (Dense b)
            = bindE (CDense_reuseAsNonZeroed s c (Cols (CDense.mat (denses s ! a)))
                      (Cols (CDense.mat (denses s ! b))))
                (\<lambda>s1. cblas128_Gemm s1 Trans NoTrans 1 (CDense.mat (denses s1 ! a))
                        (CDense.mat (denses s1 ! b)) 0 (CDense.mat (denses s1 ! c))) \<and>
          (\<forall>i j. i < Cols (CDense.mat (denses s ! a)) \<and> j < Cols (CDense.mat (denses s ! b)) \<longrightarrow>
             At s1 (Dense c) i j
               = Inr (\<Sum>l\<leftarrow>[0..<Rows (CDense.mat (denses s ! a))].
                        entry s (Dense a) l i * entry s (Dense b) l j)))
     else
       CDense_Mul s c (CDense_T a) (Dense b) = Inl (ErrShape, s) \<and>
       CDense_Mul (snd (materialize_T s a)) c (Dense (fst (materialize_T s a))) (Dense b)
         = Inl (ErrShape, snd (materialize_T s a))"
proof -
  let ?ga = "CDense.mat (denses s ! a)" and ?gb = "CDense.mat (denses s ! b)"
  let ?gc = "CDense.mat (denses s ! c)"
  let ?aT = "length (denses s)"
  have posa: "0 < Rows ?ga" "0 < Cols ?ga" using nonempty_dims[OF a(2)] a(3) by (auto simp: CDense_IsEmpty_def)
  have posb: "0 < Rows ?gb" "0 < Cols ?gb" using nonempty_dims[OF b(2)] b(3) by (auto simp: CDense_IsEmpty_def)
  from materialize_T_result[OF a] obtain sT where
    mT: "materialize_T s a = (?aT, sT)" and ev: "evolves {} {} {} s sT"
    and lenT: "length (denses sT) = Suc ?aT"
    and wfT: "wf_General sT (CDense.mat (denses sT ! ?aT))"
    and dT: "Dims sT (Dense ?aT) = (Cols ?ga, Rows ?ga)"
    and pT: "ptr (Data (CDense.mat (denses sT ! ?aT))) = length (mem s)"
    and eT: "\<And>i j. i < Cols ?ga \<Longrightarrow> j < Rows ?ga \<Longrightarrow> entry sT (Dense ?aT) i j = entry s (Dense a) j i"
    by blast
  have same: "denses sT ! a = denses s ! a" "denses sT ! b = denses s ! b" "denses sT ! c = denses s ! c"
    and mlen: "length (mem s) \<le> length (mem sT)"
    using ev a(1) b(1) c(1) by (auto simp: evolves_def)
  have db: "Dims s (Dense b) = (Rows ?gb, Cols ?gb)" by (simp add: CDense_Dims_def)
  show ?thesis
  proof (cases "Rows ?ga = Rows ?gb")
    case False
    have "CDense_Mul s c (CDense_T a) (Dense b) = Inl (ErrShape, s)"
      using False by (simp add: CDense_Mul_def CDense_T_def CDense_Dims_def)
    moreover have "CDense_Mul sT c (Dense ?aT) (Dense b) = Inl (ErrShape, sT)"
      using False dT same by (simp add: CDense_Mul_def CDense_Dims_def)
    ultimately show ?thesis using False mT by simp
  next
    case True
    have "\<exists>s'. CDense_Mul s c (CTranspose (Dense a)) (Dense b) = Inr s' \<and>
        Dims s' (Dense c) = (Cols ?ga, Cols ?gb) \<and> length (denses s') = length (denses s) \<and>
        CDense_Mul s c (CTranspose (Dense a)) (Dense b)
          = bindE (CDense_reuseAsNonZeroed s c (Cols ?ga) (Cols ?gb)) (\<lambda>s1.
              cblas128_Gemm s1 (if CTranspose (Dense a) = Dense a then NoTrans else Trans) NoTrans 1
                (CDense.mat (denses s1 ! a)) (CDense.mat (denses s1 ! b)) 0
                (CDense.mat (denses s1 ! c))) \<and>
        (\<forall>i j. i < Cols ?ga \<and> j < Cols ?gb \<longrightarrow>
           At s' (Dense c) i j
             = Inr (\<Sum>l\<leftarrow>[0..<Rows ?ga]. entry s (CTranspose (Dense a)) i l * entry s (Dense b) l j))"
      using a b c sep True posa posb
      by (intro Mul_separate) (auto simp: CDense_Dims_def)
    then obtain s1 where
      1: "CDense_Mul s c (CTranspose (Dense a)) (Dense b) = Inr s1"
        "Dims s1 (Dense c) = (Cols ?ga, Cols ?gb)" "length (denses s1) = length (denses s)"
        "CDense_Mul s c (CTranspose (Dense a)) (Dense b)
          = bindE (CDense_reuseAsNonZeroed s c (Cols ?ga) (Cols ?gb)) (\<lambda>s1.
              cblas128_Gemm s1 Trans NoTrans 1
                (CDense.mat (denses s1 ! a)) (CDense.mat (denses s1 ! b)) 0
                (CDense.mat (denses s1 ! c)))"
        "\<And>i j. i < Cols ?ga \<Longrightarrow> j < Cols ?gb \<Longrightarrow>
           At s1 (Dense c) i j
             = Inr (\<Sum>l\<leftarrow>[0..<Rows ?ga]. entry s (Dense a) l i * entry s (Dense b) l j)"
      by auto
    have wfbT: "wf_General sT ?gb" and wfcT: "wf_General sT ?gc"
      using b(2) c(2) mlen by (auto intro: wf_General_mono)
    have apT: "apart (Data ?gc) (Data (CDense.mat (denses sT ! ?aT)))"
      using c(2) pT by (simp add: apart_def wf_General_def wf_slice_def)
    have "\<exists>s'. CDense_Mul sT c (Dense ?aT) (Dense b) = Inr s' \<and>
        Dims s' (Dense c) = (Cols ?ga, Cols ?gb) \<and> length (denses s') = length (denses sT) \<and>
        CDense_Mul sT c (Dense ?aT) (Dense b)
          = bindE (CDense_reuseAsNonZeroed sT c (Cols ?ga) (Cols ?gb)) (\<lambda>s1.
              cblas128_Gemm s1 (if Dense ?aT = Dense ?aT then NoTrans else Trans) NoTrans 1
                (CDense.mat (denses s1 ! ?aT)) (CDense.mat (denses s1 ! b)) 0
                (CDense.mat (denses s1 ! c))) \<and>
        (\<forall>i j. i < Cols ?ga \<and> j < Cols ?gb \<longrightarrow>
           At s' (Dense c) i j
             = Inr (\<Sum>l\<leftarrow>[0..<Rows ?ga]. entry sT (Dense ?aT) i l * entry sT (Dense b) l j))"
      using b(1) c(1,3) sep(2) True posa posb lenT wfT dT same wfbT wfcT apT
      by (intro Mul_separate) (auto simp: CDense_Dims_def CDense_IsEmpty_def)
    then obtain s2 where
      2: "CDense_Mul sT c (Dense ?aT) (Dense b) = Inr s2"
        "Dims s2 (Dense c) = (Cols ?ga, Cols ?gb)"
        "\<And>i j. i < Cols ?ga \<Longrightarrow> j < Cols ?gb \<Longrightarrow>
           At s2 (Dense c) i j
             = Inr (\<Sum>l\<leftarrow>[0..<Rows ?ga]. entry sT (Dense ?aT) i l * entry sT (Dense b) l j)"
      by blast
    have ebT: "entry sT (Dense b) l j = entry s (Dense b) l j" if "l < Rows ?gb" "j < Cols ?gb" for l j
      using evolves_operand[OF ev, of "Dense b"] b(1,2) that by (simp add: CDense_Dims_def)
    have eq: "At s2 (Dense c) i j
        = Inr (\<Sum>l\<leftarrow>[0..<Rows ?ga]. entry s (Dense a) l i * entry s (Dense b) l j)"
      if ij: "i < Cols ?ga" "j < Cols ?gb" for i j
    proof -
      have "map (\<lambda>l. entry sT (Dense ?aT) i l * entry sT (Dense b) l j) [0..<Rows ?ga]
          = map (\<lambda>l. entry s (Dense a) l i * entry s (Dense b) l j) [0..<Rows ?ga]"
        using eT[OF ij(1)] ebT[OF _ ij(2)] True by (intro map_cong) auto
      then have "(\<Sum>l\<leftarrow>[0..<Rows ?ga]. entry sT (Dense ?aT) i l * entry sT (Dense b) l j)
          = (\<Sum>l\<leftarrow>[0..<Rows ?ga]. entry s (Dense a) l i * entry s (Dense b) l j)"
        by (rule arg_cong)
      then show ?thesis using 2(3)[OF ij] by simp
    qed
    have "entries s1 (Dense c) = entries s2 (Dense c)"
      using 1(2) 2(2) by (rule entries_cong) (use 1(5) eq in simp)
    then show ?thesis using True 1 2(1) mT by (auto simp: CDense_T_def)
  qed
qed

theorem Mul_transposed_view_witness:
  "\<exists>s1 s2. CDense_Mul example_store 2 (CDense_T 0) (Dense 1) = Inr s1 \<and>
     CDense_Mul (snd (materialize_T example_store 0)) 2 (Dense 5) (Dense 1) = Inr s2 \<and>
     entries s1 (Dense 2) = entries s2 (Dense 2) \<and>
     length (denses s1) = 5 \<and>
     At s1 (Dense 2) 0 1 = Inr (2 + 3 * \<i>)"
proof -
  have e: "Rows (CDense.mat (denses example_store ! 0)) = 2"
    "Rows (CDense.mat (denses example_store ! 1)) = 2"
    "Cols (CDense.mat (denses example_store ! 0)) = 2"
    "Cols (CDense.mat (denses example_store ! 1)) = 2"
    "fst (materialize_T example_store 0) = 5" "length (denses example_store) = 5"
    "entry example_store (Dense 0) 0 0 = 1 + \<i>" "entry example_store (Dense 0) 1 0 = 1"
    "entry example_store (Dense 1) 0 1 = \<i>" "entry example_store (Dense 1) 1 1 = 3 + 2 * \<i>"
    by (simp_all add: example_store_def materialize_T_def make_def Let_def cell_def)
  have "if Rows (CDense.mat (denses example_store ! 0)) = Rows (CDense.mat (denses example_store ! 1)) then
       (\<exists>s1 s2. CDense_Mul example_store 2 (CDense_T 0) (Dense 1) = Inr s1 \<and>
          CDense_Mul (snd (materialize_T example_store 0)) 2
            (Dense (fst (materialize_T example_store 0))) (Dense 1) = Inr s2 \<and>
          entries s1 (Dense 2) = entries s2 (Dense 2) \<and>
          length (denses s1) = length (denses example_store) \<and>
          CDense_Mul example_store 2 (CDense_T 0) (Dense 1)
            = bindE (CDense_reuseAsNonZeroed example_store 2
                      (Cols (CDense.mat (denses example_store ! 0)))
                      (Cols (CDense.mat (denses example_store ! 1))))
                (\<lambda>s1. cblas128_Gemm s1 Trans NoTrans 1 (CDense.mat (denses s1 ! 0))
                        (CDense.mat (denses s1 ! 1)) 0 (CDense.mat (denses s1 ! 2))) \<and>
          (\<forall>i j. i < Cols (CDense.mat (denses example_store ! 0)) \<and>
                 j < Cols (CDense.mat (denses example_store ! 1)) \<longrightarrow>
             At s1 (Dense 2) i j
               = Inr (\<Sum>l\<leftarrow>[0..<Rows (CDense.mat (denses example_store ! 0))].
                        entry example_store (Dense 0) l i * entry example_store (Dense 1) l j)))
     else
       CDense_Mul example_store 2 (CDense_T 0) (Dense 1) = Inl (ErrShape, example_store) \<and>
       CDense_Mul (snd (materialize_T example_store 0)) 2
         (Dense (fst (materialize_T example_store 0))) (Dense 1)
         = Inl (ErrShape, snd (materialize_T example_store 0))"
    by (rule Mul_transposed_view)
      (simp_all add: example_store_def wf_General_def wf_slice_def nil_slice_def apart_def
        CDense_IsEmpty_def CDense_Dims_def)
  then obtain s1 s2 where
    h: "CDense_Mul example_store 2 (CDense_T 0) (Dense 1) = Inr s1"
      "CDense_Mul (snd (materialize_T example_store 0)) 2 (Dense 5) (Dense 1) = Inr s2"
      "entries s1 (Dense 2) = entries s2 (Dense 2)" "length (denses s1) = 5"
      "\<And>i j. i < 2 \<and> j < 2 \<Longrightarrow> At s1 (Dense 2) i j
          = Inr (\<Sum>l\<leftarrow>[0..<2]. entry example_store (Dense 0) l i * entry example_store (Dense 1) l j)"
    unfolding e by auto
  have "[0..<2] = [0, 1::nat]" by (simp add: upt_rec)
  then have "At s1 (Dense 2) 0 1 = Inr (2 + 3 * \<i>)"
    using h(5)[of 0 1] e(7-10) by (simp add: algebra_simps)
  then show ?thesis using h(1-4) by blast
qed

section \<open>Multiplication by an operand that is not plain dense\<close>

lemma untranspose_storage:
  "storage s (fst (untransposeExtractCmplx a)) = storage s a"
  "wf_CMatrix s (fst (untransposeExtractCmplx a)) = wf_CMatrix s a"
  by (cases a rule: untransposeExtractCmplx.cases; simp)+

text \<open>Claim C10.  When, after untransposing, an operand of \<open>dest.Mul(a, b)\<close> is not a
  plain dense matrix, \<open>Mul\<close> returns without a product, and the claim is that no entry of
  \<open>dest\<close> is written.  The code breaks this when the destination is itself an operand:
  with the dense \<open>a = [[1+1i, 0], [1, 2i]]\<close> and the diagonal \<open>d = diag(5, 7)\<close> of the
  example store, \<open>a.Mul(a, d)\<close> returns, and every entry of \<open>a\<close> has been overwritten with
  the content of the workspace that no product was written to.  With the other dense
  matrix of the store as destination, the same operands leave the store as it was.\<close>

theorem Mul_unsupported_overwrites_dest:
  "returns (CDense_Mul example_store 0 (Dense 0) (Diag 0)) \<and>
   entries example_store (Dense 0) = [[Inr (1 + \<i>), Inr 0], [Inr 1, Inr (2 * \<i>)]] \<and>
   entries (final (CDense_Mul example_store 0 (Dense 0) (Diag 0))) (Dense 0)
     = [[Inr 0, Inr 0], [Inr 0, Inr 0]] \<and>
   CDense_Mul example_store 1 (Dense 0) (Diag 0) = Inr example_store"
  by code_simp

text \<open>The path on which the destination is none of the operands.  Let the inner
  dimensions of \<open>a\<close> and \<open>b\<close> agree, the product have non-zero dimensions, and \<open>dest\<close> be
  empty or of the shape of the product, with storage apart from that of \<open>a\<close>.  If, after
  untransposing, \<open>a\<close> and \<open>b\<close> are not both plain dense matrices, and \<open>dest\<close> is neither of
  them, then \<open>dest.Mul(a, b)\<close> returns the store that the resize of \<open>dest\<close> alone gives:
  every cell of the memory has its former value, and a non-empty \<open>dest\<close> leaves the store
  as it was.\<close>

theorem Mul_unsupported_noop:
  assumes m: "m < length (denses s)" "wf_General s (CDense.mat (denses s ! m))"
      "CDense_IsEmpty s m \<or> CDense_Dims s m = (fst (Dims s a), snd (Dims s b))"
    and dims: "snd (Dims s a) = fst (Dims s b)" "0 < fst (Dims s a)" "0 < snd (Dims s b)"
    and un: "\<not> (\<exists>p q. fst (untransposeExtractCmplx a) = Dense p \<and>
                      fst (untransposeExtractCmplx b) = Dense q)"
    and nr: "\<not> is_receiver m (fst (untransposeExtractCmplx a))"
      "\<not> is_receiver m (fst (untransposeExtractCmplx b))"
    and a: "wf_CMatrix s a" "apart (Data (CDense.mat (denses s ! m))) (storage s a)"
  shows "\<exists>s1. CDense_Mul s m a b = Inr s1 \<and>
     CDense_reuseAsNonZeroed s m (fst (Dims s a)) (snd (Dims s b)) = Inr s1 \<and>
     (\<forall>k. k < length (mem s) \<longrightarrow> mem s1 ! k = mem s ! k) \<and>
     (\<not> CDense_IsEmpty s m \<longrightarrow> s1 = s)"
proof -
  let ?aU = "fst (untransposeExtractCmplx a)" and ?bU = "fst (untransposeExtractCmplx b)"
  from reuse_result[OF m(1,2) dims(2,3) m(3)] obtain s1 where
    reuse: "CDense_reuseAsNonZeroed s m (fst (Dims s a)) (snd (Dims s b)) = Inr s1"
    and ev: "evolves {m} {} {} s s1"
    and sp: "span (Data (CDense.mat (denses s1 ! m)))
        \<subseteq> room (Data (CDense.mat (denses s ! m))) \<union> {length (mem s)..<length (mem s1)}"
    by blast
  have keep: "mem s1 ! k = mem s ! k" if "k < length (mem s)" for k
    using ev that by (simp add: evolves_def)
  have same: "s1 = s" if "\<not> CDense_IsEmpty s m"
    using reuse that by (auto simp: CDense_reuseAsNonZeroed_def split: if_splits)
  have disj: "span (Data (CDense.mat (denses s1 ! m))) \<inter> span (storage s a) = {}"
    using sp apart_disjoint[OF a(2)] span_fresh[OF storage_wf[OF a(1)], of "length (mem s1)"]
    by auto
  have ck: "CDense_checkOverlap s1 m (CDense.mat (denses s1 ! p)) = Inr False"
    if p: "?aU = Dense p" for p
  proof -
    have "p \<noteq> m" using nr(1) p by auto
    moreover have "p < length (denses s)"
      using a(1) untranspose_storage(2)[of s a] p by simp
    ultimately have "denses s1 ! p = denses s ! p" using ev by (simp add: evolves_def)
    moreover have "storage s a = Data (CDense.mat (denses s ! p))"
      using untranspose_storage(1)[of s a] p by simp
    ultimately show ?thesis using disj by (intro checkOverlap_ok) simp
  qed
  have "CDense_Mul s m a b = Inr s1"
    using un nr ck dims(1)
    by (cases ?aU; cases ?bU; simp add: CDense_Mul_def reuse case_prod_unfold)
  then show ?thesis using reuse keep same by auto
qed

theorem Mul_unsupported_noop_witness:
  "CDense_Mul example_store 0 (Diag 0) (Dense 1) = Inr example_store \<and>
   CDense_reuseAsNonZeroed example_store 0 2 2 = Inr example_store"
proof -
  have "\<exists>s1. CDense_Mul example_store 0 (Diag 0) (Dense 1) = Inr s1 \<and>
     CDense_reuseAsNonZeroed example_store 0 (fst (Dims example_store (Diag 0)))
       (snd (Dims example_store (Dense 1))) = Inr s1 \<and>
     (\<forall>k. k < length (mem example_store) \<longrightarrow> mem s1 ! k = mem example_store ! k) \<and>
     (\<not> CDense_IsEmpty example_store 0 \<longrightarrow> s1 = example_store)"
    by (rule Mul_unsupported_noop)
      (simp_all add: example_store_def wf_General_def wf_Vector_def wf_slice_def nil_slice_def
        apart_def CDense_IsEmpty_def CDense_Dims_def DiagCDense_Dims_def)
  moreover have "\<not> CDense_IsEmpty example_store 0"
    "fst (Dims example_store (Diag 0)) = 2" "snd (Dims example_store (Dense 1)) = 2"
    by (simp_all add: example_store_def CDense_IsEmpty_def CDense_Dims_def DiagCDense_Dims_def)
  ultimately show ?thesis by auto
qed

section \<open>The shape panic of \<open>Add\<close>, \<open>Sub\<close> and \<open>Mul\<close>\<close>

text \<open>Claim C2, as stated, fails: in the example store the operands \<open>[[4]]\<close> and its
  transposed view have the same dimensions, and yet \<open>Add\<close> into the non-empty
  \<open>2 \<times> 2\<close> destination \<open>a\<close> panics with \<open>ErrShape\<close>.\<close>

theorem ShapeMismatch_counterexample:
  "Dims example_store (Dense 4) = (1, 1) \<and> Dims example_store (CTranspose (Dense 4)) = (1, 1) \<and>
   CDense_Add example_store 0 (Dense 4) (CTranspose (Dense 4)) = Inl (ErrShape, example_store)"
  by (simp add: example_store_def CDense_Add_def elem_op_def CDense_Dims_def
      CDense_reuseAsNonZeroed_def CDense_IsEmpty_def)

text \<open>Claim C2, amended.  \<open>Add\<close> and \<open>Sub\<close> panic with \<open>ErrShape\<close> exactly when the
  dimensions of the two operands differ or, these being equal and non-zero, the
  destination is not empty and has other dimensions; \<open>Mul\<close> exactly when the inner
  dimensions differ or the destination is not empty and has not the non-zero
  dimensions of the product.  At the panic the store is the one the call began with.\<close>

theorem ShapeMismatch_cases:
  "(CDense_Add s m a b = Inl (ErrShape, s') \<longleftrightarrow>
      s' = s \<and> (shape_clash s m (fst (Dims s a)) (snd (Dims s a)) \<or> Dims s a \<noteq> Dims s b)) \<and>
   (CDense_Sub s m a b = Inl (ErrShape, s') \<longleftrightarrow>
      s' = s \<and> (shape_clash s m (fst (Dims s a)) (snd (Dims s a)) \<or> Dims s a \<noteq> Dims s b)) \<and>
   (CDense_Mul s m a b = Inl (ErrShape, s') \<longleftrightarrow>
      s' = s \<and> (shape_clash s m (fst (Dims s a)) (snd (Dims s b)) \<or>
                snd (Dims s a) \<noteq> fst (Dims s b)))"
  unfolding CDense_Add_def CDense_Sub_def
  by (intro conjI elem_op_shape Mul_shape)

theorem ShapeMismatch_cases_witness:
  "CDense_Add example_store 2 (Dense 0) (Dense 4) = Inl (ErrShape, example_store) \<and>
   CDense_Sub example_store 0 (Dense 4) (Dense 4) = Inl (ErrShape, example_store) \<and>
   CDense_Mul example_store 2 (Dense 4) (Dense 0) = Inl (ErrShape, example_store) \<and>
   CDense_Add example_store 2 (Dense 0) (Dense 1) \<noteq> Inl (ErrShape, example_store)"
  using ShapeMismatch_cases [of example_store 2 "Dense 0" "Dense 4" example_store]
    ShapeMismatch_cases [of example_store 0 "Dense 4" "Dense 4" example_store]
    ShapeMismatch_cases [of example_store 2 "Dense 4" "Dense 0" example_store]
    ShapeMismatch_cases [of example_store 2 "Dense 0" "Dense 1" example_store]
  by (simp add: example_store_def shape_clash_def CDense_Dims_def CDense_IsEmpty_def)

section \<open>The empty state of a diagonal matrix\<close>

lemma final_simps [simp]: "final (Inr s) = s" "final (Inl (e, s)) = s"
  by (simp_all add: final_def)

lemma foldE_diags:
  assumes "\<And>x s. diags (final (f x s)) = diags s"
  shows "diags (final (foldE f xs s)) = diags s"
proof (induction xs arbitrary: s)
  case Nil
  then show ?case by simp
next
  case (Cons x xs)
  show ?case
  proof (cases "f x s")
    case (Inl p)
    then show ?thesis using assms[of x s] by (cases p) simp
  next
    case (Inr t)
    then show ?thesis using assms[of x s] Cons.IH[of t] by simp
  qed
qed

lemma At_panic_store: "At s a i j = Inl (e, s') \<Longrightarrow> s' = s"
proof (induction a arbitrary: i j)
  case (ConjTranspose u)
  then show ?case by (cases "At s u j i") auto
qed (auto simp: CDense_At_def DiagCDense_At_def load_def Let_def split: if_splits)

lemma diags_assign [simp]: "diags (final (assign s d k v)) = diags s"
  by (simp add: assign_def)

lemma diags_load_assign [simp]:
  "diags (final (bindE (load s x k) (\<lambda>v. assign s y k' v))) = diags s"
  by (simp add: load_def)

lemma diags_setDiag [simp]: "diags (final (DiagCDense_setDiag s d i v)) = diags s"
  by (simp add: DiagCDense_setDiag_def Let_def)

lemma diags_At_setDiag [simp]:
  "diags (final (bindE (At s m i j) (\<lambda>v. DiagCDense_setDiag s d i v))) = diags s"
proof (cases "At s m i j")
  case (Inl p)
  then show ?thesis using At_panic_store[of s m i j "fst p" "snd p"] by (cases p) simp
next
  case (Inr v)
  then show ?thesis by simp
qed

lemma diags_Zero [simp]: "diags (final (DiagCDense_Zero s d)) = diags s"
  unfolding DiagCDense_Zero_def by (rule foldE_diags) simp

lemma diags_Copy [simp]: "diags (final (cblas128_Copy s x y)) = diags s"
  unfolding cblas128_Copy_def by (simp add: foldE_diags)

lemma list_all_update: "list_all P xs \<Longrightarrow> P x \<Longrightarrow> list_all P (xs[d := x])"
  by (auto simp: list_all_iff dest: set_update_subset_insert[THEN subsetD])

lemma diag_inv_eq: "diags t = diags s \<Longrightarrow> diag_inv t = diag_inv s"
  by (simp add: diag_inv_def)

lemma diags_Reset:
  "\<exists>x. diags (final (DiagCDense_Reset s d)) = (diags s)[d := x] \<and>
     N (DiagCDense.mat x) = 0 \<and> Inc (DiagCDense.mat x) = 0 \<and>
     len (Vector.Data (DiagCDense.mat x)) = 0"
proof (cases "d < length (diags s)")
  case True
  then show ?thesis
    by (intro exI[of _ "diags (final (DiagCDense_Reset s d)) ! d"])
      (simp add: DiagCDense_Reset_def reslice_def Let_def)
next
  case False
  then have "diags (final (DiagCDense_Reset s d)) = diags s"
    by (simp add: DiagCDense_Reset_def reslice_def Let_def list_update_beyond)
  then show ?thesis using False
    by (intro exI[of _ "\<lparr>DiagCDense.mat = \<lparr>N = 0, Data = nil_slice, Inc = 0\<rparr>\<rparr>"])
      (simp add: list_update_beyond nil_slice_def)
qed

lemma diag_inv_Reset: "diag_inv s \<Longrightarrow> diag_inv (final (DiagCDense_Reset s d))"
  using diags_Reset[of s d] by (auto simp: diag_inv_def list_all_update)

lemma diags_DiagFrom_loop:
  "diags (final (foldE (\<lambda>i s. bindE (At s m i i) (\<lambda>v. DiagCDense_setDiag s d i v)) xs s1))
     = diags s1"
  by (rule foldE_diags) (rule diags_At_setDiag)

lemma diag_inv_reuse: "diag_inv s \<Longrightarrow> diag_inv (final (DiagCDense_reuseAsNonZeroed s d r))"
  by (auto simp: DiagCDense_reuseAsNonZeroed_def useC_def make_def diag_inv_def Let_def
      intro!: list_all_update)

lemma DiagFrom_after_reuse:
  assumes "DiagCDense_reuseAsNonZeroed s d (min (fst (Dims s m)) (snd (Dims s m))) = Inr s1"
  shows "DiagCDense_DiagFrom s d m =
     (case m of
        Diag r \<Rightarrow> cblas128_Copy s1 (DiagCDense.mat (diags s1 ! r)) (DiagCDense.mat (diags s1 ! d))
      | _ \<Rightarrow> foldE (\<lambda>i s. bindE (At s m i i) (\<lambda>v. DiagCDense_setDiag s d i v))
               [0..<min (fst (Dims s m)) (snd (Dims s m))] s1)"
  unfolding DiagCDense_DiagFrom_def Let_def assms bindE_Inr ..

lemma diags_DiagFrom_body:
  "diags (final (case m of
       Diag r \<Rightarrow> cblas128_Copy s1 (DiagCDense.mat (diags s1 ! r)) (DiagCDense.mat (diags s1 ! d))
     | _ \<Rightarrow> foldE (\<lambda>i s. bindE (At s m i i) (\<lambda>v. DiagCDense_setDiag s d i v)) xs s1))
   = diags s1"
  by (cases m) (simp_all only: CMatrix.case diags_Copy diags_DiagFrom_loop)

lemma diag_inv_DiagFrom:
  assumes "diag_inv s"
  shows "diag_inv (final (DiagCDense_DiagFrom s d m))"
proof (cases "DiagCDense_reuseAsNonZeroed s d (min (fst (Dims s m)) (snd (Dims s m)))")
  case (Inl p)
  have "DiagCDense_DiagFrom s d m = Inl p"
    unfolding DiagCDense_DiagFrom_def Let_def Inl bindE_Inl ..
  then show ?thesis
    using diag_inv_reuse[OF assms, of d "min (fst (Dims s m)) (snd (Dims s m))"] Inl by simp
next
  case (Inr s1)
  then have 1: "diag_inv s1"
    using diag_inv_reuse[OF assms, of d "min (fst (Dims s m)) (snd (Dims s m))"] by simp
  have "diags (final (DiagCDense_DiagFrom s d m)) = diags s1"
    unfolding DiagFrom_after_reuse[OF Inr] by (rule diags_DiagFrom_body)
  then show ?thesis using 1 diag_inv_eq[of "final (DiagCDense_DiagFrom s d m)" s1] by simp
qed

lemma diag_inv_New: "diag_inv s \<Longrightarrow> diag_inv (apply_op (OpNew n data) s)"
  by (auto simp: NewDiagCDense_def make_def diag_inv_def Let_def split: option.splits)

lemma diag_inv_apply: "diag_inv s \<Longrightarrow> diag_inv (apply_op x s)"
proof (cases x)
  case (OpNew n data)
  assume "diag_inv s"
  then show ?thesis unfolding OpNew by (rule diag_inv_New)
next
  case (OpZero d)
  assume "diag_inv s"
  then show ?thesis using OpZero by (simp add: diag_inv_eq[of "final (DiagCDense_Zero s d)" s])
qed (simp_all add: diag_inv_Reset diag_inv_reuse diag_inv_DiagFrom)

lemma diag_inv_run: "diag_inv s \<Longrightarrow> diag_inv (fold apply_op ops s)"
  by (induction ops arbitrary: s) (simp_all add: diag_inv_apply)

text \<open>Claim C9.  If every diagonal matrix of a store has a zero dimension exactly when
  it has a zero increment, then so it is after any run of \<open>NewDiagCDense\<close>, \<open>Reset\<close>,
  \<open>Zero\<close>, \<open>DiagFrom\<close> and \<open>reuseAsNonZeroed\<close>, whether the calls return or panic; in
  the store of the end, \<open>IsEmpty\<close> holds of a diagonal matrix exactly when its
  dimensions are zero.  \<open>Reset\<close> leaves dimension, increment and length of the data at
  zero; \<open>reuseAsNonZeroed\<close> of an empty matrix with a non-zero size sets the dimension
  to that size and the increment to one.\<close>

theorem DiagCDense_empty_invariant:
  assumes "diag_inv s"
  shows "diag_inv (fold apply_op ops s) \<and>
     (\<forall>d. d < length (diags (fold apply_op ops s)) \<longrightarrow>
        (DiagCDense_IsEmpty (fold apply_op ops s) d
           \<longleftrightarrow> DiagCDense_Dims (fold apply_op ops s) d = (0, 0))) \<and>
     (\<forall>d. d < length (diags s) \<longrightarrow>
        N (DiagCDense.mat (diags (apply_op (OpReset d) s) ! d)) = 0 \<and>
        Inc (DiagCDense.mat (diags (apply_op (OpReset d) s) ! d)) = 0 \<and>
        len (Vector.Data (DiagCDense.mat (diags (apply_op (OpReset d) s) ! d))) = 0) \<and>
     (\<forall>d r. d < length (diags s) \<and> DiagCDense_IsEmpty s d \<and> r \<noteq> 0 \<longrightarrow>
        N (DiagCDense.mat (diags (apply_op (OpReuse d r) s) ! d)) = r \<and>
        Inc (DiagCDense.mat (diags (apply_op (OpReuse d r) s) ! d)) = 1)"
proof -
  let ?t = "fold apply_op ops s"
  have inv: "diag_inv ?t" using assms by (rule diag_inv_run)
  have "DiagCDense_IsEmpty ?t d \<longleftrightarrow> DiagCDense_Dims ?t d = (0, 0)" if "d < length (diags ?t)" for d
    using inv that by (auto simp: diag_inv_def list_all_length DiagCDense_IsEmpty_def DiagCDense_Dims_def)
  moreover have "N (DiagCDense.mat (diags (apply_op (OpReset d) s) ! d)) = 0 \<and>
        Inc (DiagCDense.mat (diags (apply_op (OpReset d) s) ! d)) = 0 \<and>
        len (Vector.Data (DiagCDense.mat (diags (apply_op (OpReset d) s) ! d))) = 0"
    if "d < length (diags s)" for d
    using that diags_Reset[of s d] by auto
  moreover have "N (DiagCDense.mat (diags (apply_op (OpReuse d r) s) ! d)) = r \<and>
        Inc (DiagCDense.mat (diags (apply_op (OpReuse d r) s) ! d)) = 1"
    if "d < length (diags s)" "DiagCDense_IsEmpty s d" "r \<noteq> 0" for d r
    using that by (simp add: DiagCDense_reuseAsNonZeroed_def useC_def make_def Let_def)
  ultimately show ?thesis using inv by blast
qed

theorem DiagCDense_empty_invariant_witness:
  "diag_inv (fold apply_op [OpNew 3 None, OpReset 0, OpReuse 1 2, OpDiagFrom 0 (Dense 0), OpZero 2]
      example_store) \<and>
   N (DiagCDense.mat (diags (apply_op (OpReset 0) example_store) ! 0)) = 0 \<and>
   Inc (DiagCDense.mat (diags (apply_op (OpReset 0) example_store) ! 0)) = 0 \<and>
   N (DiagCDense.mat (diags (apply_op (OpReuse 1 2) example_store) ! 1)) = 2 \<and>
   Inc (DiagCDense.mat (diags (apply_op (OpReuse 1 2) example_store) ! 1)) = 1"
proof -
  have "diag_inv example_store" "0 < length (diags example_store)" "1 < length (diags example_store)"
    "DiagCDense_IsEmpty example_store 1"
    by (simp_all add: diag_inv_def example_store_def DiagCDense_IsEmpty_def)
  note e = this
  note T = DiagCDense_empty_invariant [OF e(1),
      of "[OpNew 3 None, OpReset 0, OpReuse 1 2, OpDiagFrom 0 (Dense 0), OpZero 2]"]
  have 1: "diag_inv (fold apply_op
      [OpNew 3 None, OpReset 0, OpReuse 1 2, OpDiagFrom 0 (Dense 0), OpZero 2] example_store)"
    using T by (rule conjunct1)
  have 2: "N (DiagCDense.mat (diags (apply_op (OpReset 0) example_store) ! 0)) = 0 \<and>
      Inc (DiagCDense.mat (diags (apply_op (OpReset 0) example_store) ! 0)) = 0"
    using T[THEN conjunct2, THEN conjunct2, THEN conjunct1, rule_format, of 0] e(2) by simp
  have 3: "N (DiagCDense.mat (diags (apply_op (OpReuse 1 2) example_store) ! 1)) = 2 \<and>
      Inc (DiagCDense.mat (diags (apply_op (OpReuse 1 2) example_store) ! 1)) = 1"
    using T[THEN conjunct2, THEN conjunct2, THEN conjunct2, rule_format, of 1 2] e(3,4) by simp
  show ?thesis using 1 2 3 by simp
qed

section \<open>Extracting a diagonal\<close>

lemma nonempty_span_diag:
  assumes "wf_CMatrix s a" "0 < fst (Dims s a)" "0 < snd (Dims s a)" "base a = Diag p"
  shows "storage s a = Vector.Data (DiagCDense.mat (diags s ! p)) \<and>
     0 < len (Vector.Data (DiagCDense.mat (diags s ! p)))"
  using assms
proof (induction a)
  case (Diag q)
  then show ?case
    using vec_bound[of s "DiagCDense.mat (diags s ! q)" 0] by (auto simp: DiagCDense_Dims_def)
qed auto

lemma apart_untouched_diag:
  assumes "wf_CMatrix s a" "0 < fst (Dims s a)" "0 < snd (Dims s a)"
    and "wf_Vector s (DiagCDense.mat (diags s ! d))"
    and "apart (Vector.Data (DiagCDense.mat (diags s ! d))) (storage s a)"
  shows "untouched {} {d} a"
proof -
  have "base a \<noteq> Diag d"
  proof
    assume "base a = Diag d"
    from nonempty_span_diag[OF assms(1-3) this] assms(4,5) show False
      by (auto simp: apart_def wf_Vector_def wf_slice_def)
  qed
  then show ?thesis by (induction a) auto
qed

lemma DiagFrom_separate:
  assumes d: "d < length (diags s)" "wf_Vector s (DiagCDense.mat (diags s ! d))"
      "DiagCDense_IsEmpty s d \<or>
       N (DiagCDense.mat (diags s ! d)) = min (fst (Dims s m)) (snd (Dims s m))"
    and m: "wf_CMatrix s m" "0 < min (fst (Dims s m)) (snd (Dims s m))"
    and sep: "apart (Vector.Data (DiagCDense.mat (diags s ! d))) (storage s m)"
  shows "\<exists>s'. DiagCDense_DiagFrom s d m = Inr s' \<and>
     Dims s' (Diag d) = (min (fst (Dims s m)) (snd (Dims s m)), min (fst (Dims s m)) (snd (Dims s m))) \<and>
     (\<forall>i. i < min (fst (Dims s m)) (snd (Dims s m)) \<longrightarrow>
        At s' (Diag d) i i = Inr (entry s m i i) \<and> At s' m i i = Inr (entry s m i i))"
proof -
  let ?n = "min (fst (Dims s m)) (snd (Dims s m))"
  from diag_reuse_result[OF d(1,2) m(2) d(3)] obtain s1 where
    reuse: "DiagCDense_reuseAsNonZeroed s d ?n = Inr s1" and ev: "evolves {} {d} {} s s1"
    and len: "length (diags s1) = length (diags s)"
    and wf1: "wf_Vector s1 (DiagCDense.mat (diags s1 ! d))"
    and n1: "N (DiagCDense.mat (diags s1 ! d)) = ?n" and inc: "0 < Inc (DiagCDense.mat (diags s1 ! d))"
    and sp: "span (Vector.Data (DiagCDense.mat (diags s1 ! d)))
       \<subseteq> room (Vector.Data (DiagCDense.mat (diags s ! d))) \<union> {length (mem s)..<length (mem s1)}"
    by blast
  let ?v = "DiagCDense.mat (diags s1 ! d)"
  have pos: "0 < fst (Dims s m)" "0 < snd (Dims s m)" using m(2) by auto
  have ut: "untouched {} {d} m" using m(1) pos d(2) sep by (rule apart_untouched_diag)
  note e = evolves_operand[OF ev m(1) ut]
  have wfm1: "wf_CMatrix s1 m" and dm1: "Dims s1 m = Dims s m" and st1: "storage s1 m = storage s m"
    and en1: "\<And>i j. i < fst (Dims s m) \<Longrightarrow> j < snd (Dims s m) \<Longrightarrow> entry s1 m i j = entry s m i j"
    using e by auto
  have disj: "span (Vector.Data ?v) \<inter> span (storage s1 m) = {}"
    using sp apart_disjoint[OF sep] span_fresh[OF storage_wf[OF m(1)], of "length (mem s1)"] st1
    by auto
  have sub: "vcells ?v ?n \<subseteq> span (Vector.Data ?v)"
    using wf1 n1 by (intro vcells_subset_span[of s1]) auto
  let ?s' = "vfill ?v ?n (\<lambda>i. entry s1 m i i) s1"
  have loop: "foldE (\<lambda>i t. bindE (At t m i i) (\<lambda>x. DiagCDense_setDiag t d i x)) [0..<?n] s1 = Inr ?s'"
  proof (rule setDiag_loop_vfill[OF _ refl wf1])
    fix t i assume t: "inside (vcells ?v ?n) s1 t" and i: "i < ?n"
    show "At t m i i = Inr (entry s1 m i i)"
      using sub disj dm1 i by (intro inside_operand(3)[OF t wfm1]) auto
  qed (simp add: n1)
  have body: "(case m of
        Diag r \<Rightarrow> cblas128_Copy s1 (DiagCDense.mat (diags s1 ! r)) (DiagCDense.mat (diags s1 ! d))
      | _ \<Rightarrow> foldE (\<lambda>i s. bindE (At s m i i) (\<lambda>v. DiagCDense_setDiag s d i v)) [0..<?n] s1) = Inr ?s'"
  proof (cases "\<exists>r. m = Diag r")
    case True
    then obtain r where r: "m = Diag r" by blast
    let ?x = "DiagCDense.mat (diags s1 ! r)"
    have "cblas128_Copy s1 ?x ?v = Inr (vfill ?v ?n (\<lambda>i. mem s1 ! (ptr (Vector.Data ?x) + i * Inc ?x)) s1)"
      using wfm1 dm1 wf1 n1 sub disj r
      by (intro Copy_vfill) (auto simp: DiagCDense_Dims_def)
    then show ?thesis using r by simp
  next
    case False
    then show ?thesis using loop by (cases m) auto
  qed
  have res: "DiagCDense_DiagFrom s d m = Inr ?s'"
    unfolding DiagFrom_after_reuse[OF reuse] by (rule body)
  have ins: "inside (vcells ?v ?n) s1 ?s'" by (rule vfill_inside)
  have entd: "At ?s' (Diag d) i i = Inr (entry s m i i)" if i: "i < ?n" for i
  proof -
    have b: "i * Inc ?v < len (Vector.Data ?v)" using wf1 n1 i by (intro vec_bound[of s1]) auto
    then have "ptr (Vector.Data ?v) + i * Inc ?v \<in> span (Vector.Data ?v)" by (simp add: span_def)
    then have "ptr (Vector.Data ?v) + i * Inc ?v < length (mem s1)"
      using wf1 by (auto simp: wf_Vector_def intro: span_in_mem)
    then have "mem ?s' ! (ptr (Vector.Data ?v) + i * Inc ?v) = entry s1 m i i"
      using inc i by (intro vfill_nth_in) auto
    then show ?thesis using b i n1 en1[of i i] by (auto simp: DiagCDense_At_def load_def Let_def)
  qed
  have entm: "At ?s' m i i = Inr (entry s m i i)" if i: "i < ?n" for i
    using inside_operand(3)[OF ins wfm1, of i i] sub disj dm1 i en1[of i i] by auto
  show ?thesis using res n1 entd entm by (auto simp: DiagCDense_Dims_def)
qed

text \<open>Claim C7, as stated, fails when \<open>d\<close> and \<open>m\<close> share storage: \<open>DiagFrom\<close> checks no
  overlap.  With \<open>e = diag(1i, 2)\<close>, the call \<open>e.DiagFrom(e.H())\<close> returns, and then
  \<open>e.at(0, 0)\<close> is \<open>-1i\<close> and \<open>e.H().at(0, 0)\<close> is \<open>1i\<close>.  With \<open>m\<close> over \<open>data[0:4]\<close> and \<open>d\<close>
  over \<open>data[3:5]\<close> of one array \<open>{10, 1, 2, 3, 4}\<close>, the call \<open>d.DiagFrom(m)\<close> returns, and
  \<open>d.at(1, 1)\<close> is \<open>10\<close>, where \<open>m.at(1, 1)\<close> was \<open>3\<close> before the call.  So the diagonal of
  \<open>d\<close> is that of \<open>m\<close> neither as \<open>m\<close> is after the call nor as it was before.\<close>

theorem DiagFrom_shared_counterexample:
  "Dims shared_store (DiagCDense_H 1) = (2, 2) \<and> DiagCDense_Dims shared_store 1 = (2, 2) \<and>
   returns (DiagCDense_DiagFrom shared_store 1 (DiagCDense_H 1)) \<and>
   At (final (DiagCDense_DiagFrom shared_store 1 (DiagCDense_H 1))) (Diag 1) 0 0 = Inr (- \<i>) \<and>
   At (final (DiagCDense_DiagFrom shared_store 1 (DiagCDense_H 1))) (DiagCDense_H 1) 0 0 = Inr \<i> \<and>
   Dims shared_store (Dense 0) = (2, 2) \<and> DiagCDense_Dims shared_store 0 = (2, 2) \<and>
   returns (DiagCDense_DiagFrom shared_store 0 (Dense 0)) \<and>
   At shared_store (Dense 0) 1 1 = Inr 3 \<and>
   At (final (DiagCDense_DiagFrom shared_store 0 (Dense 0))) (Diag 0) 1 1 = Inr 10"
  by code_simp

text \<open>Claim C7, amended.  Let \<open>m\<close> be a well-formed matrix with \<open>n = min(rows, cols) \<ge> 1\<close>,
  and \<open>d\<close> a well-formed diagonal matrix, empty or of size \<open>n\<close>, that is \<open>m\<close> itself or has
  its storage apart from that of \<open>m\<close>.  Then \<open>d.DiagFrom(m)\<close> returns; \<open>d\<close> is \<open>n \<times> n\<close>, its
  entry \<open>(i, i)\<close> is the entry \<open>(i, i)\<close> of \<open>m\<close>, after the call as before it, and its
  entries off the diagonal are zero.  When \<open>m\<close> is a \<open>DiagCDense\<close>, \<open>DiagFrom\<close> is the resize
  followed by the kernel's copy of the vector of \<open>m\<close> into that of \<open>d\<close>.\<close>

theorem DiagFrom_diagonal:
  assumes d: "d < length (diags s)" "wf_Vector s (DiagCDense.mat (diags s ! d))"
      "DiagCDense_IsEmpty s d \<or>
       N (DiagCDense.mat (diags s ! d)) = min (fst (Dims s m)) (snd (Dims s m))"
    and m: "wf_CMatrix s m" "1 \<le> min (fst (Dims s m)) (snd (Dims s m))"
    and sep: "m = Diag d \<or> apart (Vector.Data (DiagCDense.mat (diags s ! d))) (storage s m)"
  shows "\<exists>s'. DiagCDense_DiagFrom s d m = Inr s' \<and>
     Dims s' (Diag d) = (min (fst (Dims s m)) (snd (Dims s m)), min (fst (Dims s m)) (snd (Dims s m))) \<and>
     (\<forall>i. i < min (fst (Dims s m)) (snd (Dims s m)) \<longrightarrow>
        At s' (Diag d) i i = At s' m i i \<and> At s' (Diag d) i i = Inr (entry s m i i) \<and>
        At s m i i = Inr (entry s m i i)) \<and>
     (\<forall>i j. i < min (fst (Dims s m)) (snd (Dims s m)) \<and>
            j < min (fst (Dims s m)) (snd (Dims s m)) \<and> i \<noteq> j \<longrightarrow>
        At s' (Diag d) i j = Inr 0) \<and>
     (\<forall>r. m = Diag r \<longrightarrow>
        DiagCDense_DiagFrom s d m
          = bindE (DiagCDense_reuseAsNonZeroed s d (min (fst (Dims s m)) (snd (Dims s m))))
              (\<lambda>s1. cblas128_Copy s1 (DiagCDense.mat (diags s1 ! r)) (DiagCDense.mat (diags s1 ! d))))"
proof -
  let ?n = "min (fst (Dims s m)) (snd (Dims s m))"
  have pre: "At s m i i = Inr (entry s m i i)" if "i < ?n" for i
    using m(1) that by (intro At_entry) auto
  have kernel: "DiagCDense_DiagFrom s d m
      = bindE (DiagCDense_reuseAsNonZeroed s d ?n)
          (\<lambda>s1. cblas128_Copy s1 (DiagCDense.mat (diags s1 ! r)) (DiagCDense.mat (diags s1 ! d)))"
    if "m = Diag r" for r
    using that by (simp add: DiagCDense_DiagFrom_def Let_def)
  have off: "At s' (Diag d) i j = Inr 0"
    if "Dims s' (Diag d) = (?n, ?n)" "i < ?n" "j < ?n" "i \<noteq> j" for s' i j
    using that by (auto simp: DiagCDense_At_def DiagCDense_Dims_def Let_def)
  have "\<exists>s'. DiagCDense_DiagFrom s d m = Inr s' \<and> Dims s' (Diag d) = (?n, ?n) \<and>
     (\<forall>i. i < ?n \<longrightarrow> At s' (Diag d) i i = Inr (entry s m i i) \<and> At s' m i i = Inr (entry s m i i))"
  proof (cases "m = Diag d")
    case True
    let ?v = "DiagCDense.mat (diags s ! d)"
    have n: "?n = N ?v" using True by (simp add: DiagCDense_Dims_def)
    then have ne: "\<not> DiagCDense_IsEmpty s d"
      using m(2) d(2) by (auto simp: DiagCDense_IsEmpty_def wf_Vector_def split: if_splits)
    have reuse: "DiagCDense_reuseAsNonZeroed s d ?n = Inr s"
      using ne n m(2) by (simp add: DiagCDense_reuseAsNonZeroed_def)
    have "DiagCDense_DiagFrom s d m = Inr s"
      unfolding kernel[OF True] reuse using Copy_self[OF d(2)] by simp
    then show ?thesis using pre True n by (auto simp: DiagCDense_Dims_def)
  next
    case False
    then have "apart (Vector.Data (DiagCDense.mat (diags s ! d))) (storage s m)" using sep by simp
    with d m show ?thesis by (intro DiagFrom_separate) auto
  qed
  then show ?thesis using pre off kernel by (auto simp del: At.simps Dims.simps)
qed

theorem DiagFrom_diagonal_witness:
  "\<exists>s'. DiagCDense_DiagFrom example_store 1 (Dense 0) = Inr s' \<and> Dims s' (Diag 1) = (2, 2) \<and>
     At s' (Diag 1) 1 1 = At s' (Dense 0) 1 1 \<and> At s' (Diag 1) 1 1 = Inr (2 * \<i>) \<and>
     At s' (Diag 1) 0 1 = Inr 0"
proof -
  have e: "min (fst (Dims example_store (Dense 0))) (snd (Dims example_store (Dense 0))) = 2"
    "entry example_store (Dense 0) 1 1 = 2 * \<i>"
    by (simp_all add: example_store_def CDense_Dims_def cell_def)
  have "1 < length (diags example_store)"
    "wf_Vector example_store (DiagCDense.mat (diags example_store ! 1))"
    "DiagCDense_IsEmpty example_store 1 \<or>
       N (DiagCDense.mat (diags example_store ! 1))
         = min (fst (Dims example_store (Dense 0))) (snd (Dims example_store (Dense 0)))"
    "wf_CMatrix example_store (Dense 0)"
    "1 \<le> min (fst (Dims example_store (Dense 0))) (snd (Dims example_store (Dense 0)))"
    "Dense 0 = Diag 1 \<or>
       apart (Vector.Data (DiagCDense.mat (diags example_store ! 1))) (storage example_store (Dense 0))"
    by (simp_all add: example_store_def wf_Vector_def wf_General_def wf_slice_def nil_slice_def
        DiagCDense_IsEmpty_def CDense_Dims_def apart_def)
  from DiagFrom_diagonal[OF this] obtain s' where
    h: "DiagCDense_DiagFrom example_store 1 (Dense 0) = Inr s'" "Dims s' (Diag 1) = (2, 2)"
      "\<And>i. i < 2 \<Longrightarrow> At s' (Diag 1) i i = At s' (Dense 0) i i \<and>
          At s' (Diag 1) i i = Inr (entry example_store (Dense 0) i i)"
      "\<And>i j. i < 2 \<and> j < 2 \<and> i \<noteq> j \<Longrightarrow> At s' (Diag 1) i j = Inr 0"
    unfolding e by blast
  have "(1::nat) < 2" by simp
  from h(3)[OF this]
  have "At s' (Diag 1) 1 1 = At s' (Dense 0) 1 1 \<and> At s' (Diag 1) 1 1 = Inr (2 * \<i>)"
    unfolding e(2) .
  moreover have "At s' (Diag 1) 0 1 = Inr 0" by (rule h(4)) simp
  ultimately show ?thesis using h(1,2) by blast
qed

end
